theory Spec2Isabelle
  imports Complex_Main "HOL-Library.Word"
begin

unbundle bit_operations_syntax

section \<open>Data model of the reverse geocoder\<close>

text \<open>
  The engine is the class \<open>RevGeocoder\<close> of \<open>RevGeocoder.cpp\<close>. Its member variables
  become the fields of a record; every method becomes a function that takes the
  record and returns the updated one.

  A C++ \<open>float\<close> or \<open>double\<close> is a value of \<open>fp\<close>: a finite number (\<open>Finite 0\<close> is
  \<open>+0\<close>), the negative zero, an infinity or a NaN.
\<close>

datatype fp = Finite real | NegZero | PosInf | NegInf | NaN

type_synonym vec2 = "fp \<times> fp"

text \<open>\<open>cglib::bbox2<double>\<close>: the corners \<open>min\<close> and \<open>max\<close>.\<close>

record bbox2 =
  bmin :: vec2
  bmax :: vec2

text \<open>
  One row of the table \<open>entities\<close>, as the query of \<open>findGeometryInfo\<close> selects it:
  \<open>id\<close>, \<open>features\<close> (a blob) and \<open>housenumbers\<close> (NULL or text).
\<close>

record entity_row =
  row_id :: "32 word"
  row_features :: string
  row_housenumbers :: "string option"

text \<open>
  \<open>sqlite3pp::database\<close>, read only: the rows \<open>(name, value)\<close> of the table
  \<open>metadata\<close>, and the rows that the store answers to a \<open>SELECT\<close> on \<open>entities\<close>,
  given the text of the statement.
\<close>

record store =
  metadata :: "(string \<times> string) list"
  select_entities :: "string \<Rightarrow> entity_row list"

record database =
  db_id :: string
  db_store :: store
  db_bounds :: "bbox2 option"
  db_origin :: vec2

text \<open>
  Modelled from the spec: the cache class of \<open>_addressCache\<close> and \<open>_queryCache\<close> is not
  part of the sources. Section 4.2 describes a fixed-capacity key-value cache with
  least-recently-used eviction and the operations \<open>read\<close>, \<open>put\<close> and \<open>clear\<close>. The
  entries are kept most recently used first.
\<close>

record ('k, 'v) lru_cache =
  capacity :: nat
  entries :: "('k \<times> 'v) list"

definition drop_key :: "'k \<Rightarrow> ('k \<times> 'v) list \<Rightarrow> ('k \<times> 'v) list" where
  "drop_key k kvs = filter (\<lambda>kv. fst kv \<noteq> k) kvs"

definition cache_read :: "('k, 'v) lru_cache \<Rightarrow> 'k \<Rightarrow> 'v option \<times> ('k, 'v) lru_cache" where
  "cache_read c k =
     (case map_of (entries c) k of
        None \<Rightarrow> (None, c)
      | Some v \<Rightarrow> (Some v, c\<lparr>entries := (k, v) # drop_key k (entries c)\<rparr>))"

definition cache_put :: "('k, 'v) lru_cache \<Rightarrow> 'k \<Rightarrow> 'v \<Rightarrow> ('k, 'v) lru_cache" where
  "cache_put c k v = c\<lparr>entries := take (capacity c) ((k, v) # drop_key k (entries c))\<rparr>"

definition cache_clear :: "('k, 'v) lru_cache \<Rightarrow> ('k, 'v) lru_cache" where
  "cache_clear c = c\<lparr>entries := []\<rparr>"

text \<open>
  \<open>QuadIndex::GeometryInfo\<close>: the entity id and the geometries of the
  \<open>MultiGeometry\<close>. The geometry class itself is a type parameter.
\<close>

type_synonym 'g geometry_info = "64 word \<times> 'g list"

text \<open>
  The members of \<open>RevGeocoder\<close>. \<open>'ty\<close> is the enumeration \<open>Address::Type\<close> and \<open>'a\<close>
  the class \<open>Address\<close>, both declared outside the sources. The two counters are only
  incremented and copied.
\<close>

record ('ty, 'a, 'g) rev_geocoder =
  databases :: "database list"
  radius :: fp
  language :: string
  enabledFilters :: "'ty list"
  addressCache :: "(string, 'a) lru_cache"
  queryCache :: "(string, 'g geometry_info list) lru_cache"
  entityQueryCounter :: nat
  previousEntityQueryCounter :: nat

section \<open>Configuration\<close>

definition getRadius :: "('ty, 'a, 'g) rev_geocoder \<Rightarrow> fp" where
  "getRadius g = radius g"

definition setRadius :: "fp \<Rightarrow> ('ty, 'a, 'g) rev_geocoder \<Rightarrow> ('ty, 'a, 'g) rev_geocoder" where
  "setRadius r g = g\<lparr>radius := r\<rparr>"

definition getLanguage :: "('ty, 'a, 'g) rev_geocoder \<Rightarrow> string" where
  "getLanguage g = language g"

definition setLanguage :: "string \<Rightarrow> ('ty, 'a, 'g) rev_geocoder \<Rightarrow> ('ty, 'a, 'g) rev_geocoder" where
  "setLanguage l g = g\<lparr>language := l, addressCache := cache_clear (addressCache g)\<rparr>"

text \<open>\<open>std::find\<close> on the vector of enabled filters: is the type among them.\<close>

definition isFilterEnabled :: "('ty, 'a, 'g) rev_geocoder \<Rightarrow> 'ty \<Rightarrow> bool" where
  "isFilterEnabled g t = (t \<in> set (enabledFilters g))"

text \<open>
  \<open>push_back\<close> appends at the end; \<open>erase(it)\<close> removes the element that \<open>std::find\<close>
  found, which is the first occurrence.
\<close>

definition setFilterEnabled ::
  "'ty \<Rightarrow> bool \<Rightarrow> ('ty, 'a, 'g) rev_geocoder \<Rightarrow> ('ty, 'a, 'g) rev_geocoder" where
  "setFilterEnabled t enabled g =
     (if enabled \<and> t \<notin> set (enabledFilters g)
        then g\<lparr>enabledFilters := enabledFilters g @ [t]\<rparr>
      else if \<not> enabled \<and> t \<in> set (enabledFilters g)
        then g\<lparr>enabledFilters := remove1 t (enabledFilters g)\<rparr>
      else g)"

section \<open>Entity ids\<close>

text \<open>
  \<open>findGeometryInfo\<close>, line 130: the id of the interpolated address at position \<open>i\<close> of
  the interpolator's result, for the row \<open>entityId\<close>.
  \<open>i\<close> is a \<open>std::size_t\<close>, taken as 64 bits wide, and \<open>entityId\<close> an \<open>unsigned int\<close>.
  Where \<open>std::size_t\<close> has 32 bits, \<open>i + 1\<close> is below \<open>2 ^ 32\<close>.
\<close>

definition encodedId :: "64 word \<Rightarrow> 32 word \<Rightarrow> 64 word" where
  "encodedId i entityId = push_bit 32 (i + 1) OR ucast entityId"

text \<open>Line 147: a row without house numbers keeps its row id, widened to 64 bits.\<close>

definition directId :: "32 word \<Rightarrow> 64 word" where
  "directId entityId = ucast entityId"

section \<open>Import of a database\<close>

text \<open>
  The exceptions that \<open>getOrigin\<close> and \<open>getBounds\<close> can raise: \<open>std::out_of_range\<close> from
  \<open>vector::at\<close> and \<open>boost::bad_lexical_cast\<close> from \<open>boost::lexical_cast\<close>.
\<close>

datatype error = out_of_range | bad_lexical_cast

text \<open>
  \<open>boost::split\<close> with \<open>is_any_of(",")\<close> and \<open>token_compress_off\<close>: one token more than
  there are commas; tokens may be empty.
\<close>

fun split_commas :: "string \<Rightarrow> string list" where
  "split_commas [] = ['''']"
| "split_commas (c # cs) =
     (if c = CHR '','' then '''' # split_commas cs
      else (case split_commas cs of [] \<Rightarrow> [c # ''''] | t # ts \<Rightarrow> (c # t) # ts))"

definition at_index :: "'a list \<Rightarrow> nat \<Rightarrow> error + 'a" where
  "at_index xs i = (if i < length xs then Inr (xs ! i) else Inl out_of_range)"

text \<open>
  \<open>boost::lexical_cast<double>\<close> is a parameter \<open>lc\<close> of the model: \<open>None\<close> where it
  throws. \<open>cast_at lc xs i\<close> is \<open>boost::lexical_cast<double>(xs.at(i))\<close>.
\<close>

definition cast_at :: "(string \<Rightarrow> fp option) \<Rightarrow> string list \<Rightarrow> nat \<Rightarrow> error + fp" where
  "cast_at lc xs i =
     (case at_index xs i of
        Inl e \<Rightarrow> Inl e
      | Inr s \<Rightarrow> (case lc s of None \<Rightarrow> Inl bad_lexical_cast | Some v \<Rightarrow> Inr v))"

text \<open>The rows of \<open>SELECT value FROM metadata WHERE name = ...\<close>, in the order of the table.\<close>

definition select_metadata :: "store \<Rightarrow> string \<Rightarrow> string list" where
  "select_metadata s name = map snd (filter (\<lambda>row. fst row = name) (metadata s))"

text \<open>
  \<open>getOrigin\<close> and \<open>getBounds\<close> return from inside the loop, so only the first row
  counts. The operands of a constructor call are evaluated here from left to right;
  C++ leaves the order open, which can only change which of the two exceptions is
  raised when both are due.
\<close>

definition getOrigin :: "(string \<Rightarrow> fp option) \<Rightarrow> store \<Rightarrow> error + vec2" where
  "getOrigin lc s =
     (case select_metadata s ''origin'' of
        [] \<Rightarrow> Inr (Finite 0, Finite 0)
      | v # _ \<Rightarrow>
          (let origin = split_commas v in
           case cast_at lc origin 0 of Inl e \<Rightarrow> Inl e | Inr x \<Rightarrow>
           case cast_at lc origin 1 of Inl e \<Rightarrow> Inl e | Inr y \<Rightarrow>
           Inr (x, y)))"

definition getBounds :: "(string \<Rightarrow> fp option) \<Rightarrow> store \<Rightarrow> error + bbox2 option" where
  "getBounds lc s =
     (case select_metadata s ''bounds'' of
        [] \<Rightarrow> Inr None
      | v # _ \<Rightarrow>
          (let bounds = split_commas v in
           case cast_at lc bounds 0 of Inl e \<Rightarrow> Inl e | Inr x0 \<Rightarrow>
           case cast_at lc bounds 1 of Inl e \<Rightarrow> Inl e | Inr y0 \<Rightarrow>
           case cast_at lc bounds 2 of Inl e \<Rightarrow> Inl e | Inr x1 \<Rightarrow>
           case cast_at lc bounds 3 of Inl e \<Rightarrow> Inl e | Inr y1 \<Rightarrow>
           Inr (Some \<lparr>bmin = (x0, y0), bmax = (x1, y1)\<rparr>)))"

text \<open>\<open>boost::lexical_cast<std::string>\<close> of an unsigned integer: its decimal digits.\<close>

definition digit_char :: "nat \<Rightarrow> char" where
  "digit_char d = char_of (48 + d)"

fun to_decimal :: "nat \<Rightarrow> string" where
  "to_decimal n =
     (if n < 10 then [digit_char n] else to_decimal (n div 10) @ [digit_char (n mod 10)])"

declare to_decimal.simps [simp del]

text \<open>
  \<open>import\<close>: the result is the returned \<open>bool\<close> or the exception, together with the
  engine after the call. An exception of \<open>getBounds\<close> or \<open>getOrigin\<close> leaves the method
  before \<open>push_back\<close>.
\<close>

definition "import" ::
  "(string \<Rightarrow> fp option) \<Rightarrow> store \<Rightarrow> ('ty, 'a, 'g) rev_geocoder \<Rightarrow>
     (error + bool) \<times> ('ty, 'a, 'g) rev_geocoder" where
  "import lc s g =
     (case getBounds lc s of Inl e \<Rightarrow> (Inl e, g) | Inr b \<Rightarrow>
      case getOrigin lc s of Inl e \<Rightarrow> (Inl e, g) | Inr orig \<Rightarrow>
      (Inr True,
       g\<lparr>databases := databases g @
           [\<lparr>db_id = ''db'' @ to_decimal (length (databases g)), db_store = s,
             db_bounds = b, db_origin = orig\<rparr>]\<rparr>))"

text \<open>
  The format of the metadata values in section 6 of the specification: \<open>n\<close> numeric
  fields separated by commas (2 for \<open>origin\<close>, 4 for \<open>bounds\<close>).
\<close>

definition well_formed_tuple :: "(string \<Rightarrow> fp option) \<Rightarrow> nat \<Rightarrow> string \<Rightarrow> bool" where
  "well_formed_tuple lc n v =
     (length (split_commas v) = n \<and> list_all (\<lambda>t. lc t \<noteq> None) (split_commas v))"

text \<open>
  What the code needs of a value to read it: at least \<open>n\<close> fields, the first \<open>n\<close> of
  them numeric.
\<close>

definition readable_tuple :: "(string \<Rightarrow> fp option) \<Rightarrow> nat \<Rightarrow> string \<Rightarrow> bool" where
  "readable_tuple lc n v =
     (n \<le> length (split_commas v) \<and> list_all (\<lambda>t. lc t \<noteq> None) (take n (split_commas v)))"

text \<open>The ids of a registry filled by \<open>import\<close>: \<open>db0\<close>, \<open>db1\<close>, ... in this order.\<close>

definition sequential_ids :: "database list \<Rightarrow> bool" where
  "sequential_ids dbs = (map db_id dbs = map (\<lambda>i. ''db'' @ to_decimal i) [0..<length dbs])"

text \<open>The number that a string of decimal digits denotes.\<close>

definition digit_value :: "char \<Rightarrow> nat" where
  "digit_value c = of_char c - 48"

definition is_digit :: "char \<Rightarrow> bool" where
  "is_digit c = (48 \<le> (of_char c :: nat) \<and> (of_char c :: nat) \<le> 57)"

definition from_decimal :: "string \<Rightarrow> nat" where
  "from_decimal cs = foldl (\<lambda>acc c. 10 * acc + digit_value c) 0 cs"

text \<open>
  A stand-in for \<open>boost::lexical_cast<double>\<close> on integer literals (an optional minus
  sign and digits), for the concrete instances below.
\<close>

definition integer_literal :: "string \<Rightarrow> fp option" where
  "integer_literal s =
     (case s of
        [] \<Rightarrow> None
      | c # cs \<Rightarrow>
          if c = CHR ''-'' \<and> cs \<noteq> [] \<and> list_all is_digit cs
            then (if from_decimal cs = 0 then Some NegZero
                  else Some (Finite (- real (from_decimal cs))))
          else if list_all is_digit s then Some (Finite (real (from_decimal s)))
          else None)"

section \<open>Floating-point arithmetic\<close>

text \<open>
  The arithmetic of \<open>float\<close> and \<open>double\<close> is the one of IEEE 754 in its default
  rounding mode: the exact result, rounded to the nearest representable number, ties
  to the even significand. A format is its precision \<open>p\<close> (the bits of the significand)
  and its largest exponent \<open>emax\<close>.
\<close>

type_synonym format = "nat \<times> int"

definition binary32 :: format where
  "binary32 = (24, 127)"

definition binary64 :: format where
  "binary64 = (53, 1023)"

text \<open>The nearest integer, a tie going to the even one.\<close>

definition round_half_even :: "real \<Rightarrow> int" where
  "round_half_even y =
     (if y - of_int \<lfloor>y\<rfloor> < 1 / 2 then \<lfloor>y\<rfloor>
      else if 1 / 2 < y - of_int \<lfloor>y\<rfloor> then \<lfloor>y\<rfloor> + 1
      else if even \<lfloor>y\<rfloor> then \<lfloor>y\<rfloor> else \<lfloor>y\<rfloor> + 1)"

text \<open>
  The exponent of the unit in the last place at \<open>x \<noteq> 0\<close>: the numbers from
  \<open>2 ^ e\<close> up to \<open>2 ^ (e + 1)\<close> are \<open>2 ^ (e - (p - 1))\<close> apart, and below the smallest
  normal exponent \<open>1 - emax\<close> the spacing stays the one of the subnormal numbers.
\<close>

definition ulp_exponent :: "format \<Rightarrow> real \<Rightarrow> int" where
  "ulp_exponent fmt x = max \<lfloor>log 2 \<bar>x\<bar>\<rfloor> (1 - snd fmt) - (int (fst fmt) - 1)"

definition round_real :: "format \<Rightarrow> real \<Rightarrow> real" where
  "round_real fmt x =
     (if x = 0 then 0
      else of_int (round_half_even (x / 2 powi ulp_exponent fmt x)) * 2 powi ulp_exponent fmt x)"

text \<open>
  The rounded value as a floating-point number: beyond the largest finite number it
  is an infinity, and a result rounded to zero keeps the sign of the exact one.
\<close>

definition fp_round :: "format \<Rightarrow> real \<Rightarrow> fp" where
  "fp_round fmt x =
     (if 2 powi (snd fmt + 1) \<le> \<bar>round_real fmt x\<bar> then (if 0 < x then PosInf else NegInf)
      else if round_real fmt x = 0 then (if x < 0 then NegZero else Finite 0)
      else Finite (round_real fmt x))"

fun fp_negative :: "fp \<Rightarrow> bool" where
  "fp_negative (Finite x) = (x < 0)"
| "fp_negative NegZero = True"
| "fp_negative PosInf = False"
| "fp_negative NegInf = True"
| "fp_negative NaN = False"

fun fp_value :: "fp \<Rightarrow> real" where
  "fp_value (Finite x) = x"
| "fp_value NegZero = 0"
| "fp_value PosInf = 0"
| "fp_value NegInf = 0"
| "fp_value NaN = 0"

fun fp_is_zero :: "fp \<Rightarrow> bool" where
  "fp_is_zero (Finite x) = (x = 0)"
| "fp_is_zero NegZero = True"
| "fp_is_zero PosInf = False"
| "fp_is_zero NegInf = False"
| "fp_is_zero NaN = False"

fun fp_is_inf :: "fp \<Rightarrow> bool" where
  "fp_is_inf (Finite x) = False"
| "fp_is_inf NegZero = False"
| "fp_is_inf PosInf = True"
| "fp_is_inf NegInf = True"
| "fp_is_inf NaN = False"

definition fp_zero :: "bool \<Rightarrow> fp" where
  "fp_zero negative = (if negative then NegZero else Finite 0)"

definition fp_inf :: "bool \<Rightarrow> fp" where
  "fp_inf negative = (if negative then NegInf else PosInf)"

fun fp_neg :: "fp \<Rightarrow> fp" where
  "fp_neg (Finite x) = (if x = 0 then NegZero else Finite (- x))"
| "fp_neg NegZero = Finite 0"
| "fp_neg PosInf = NegInf"
| "fp_neg NegInf = PosInf"
| "fp_neg NaN = NaN"

text \<open>
  Division: NaN for a NaN operand, for \<open>\<infinity> / \<infinity>\<close> and for \<open>0 / 0\<close>; otherwise a zero
  divisor or an infinite dividend gives an infinity and an infinite divisor or a zero
  dividend gives a zero, with the sign of the quotient; no exception is raised.
\<close>

definition fp_div :: "format \<Rightarrow> fp \<Rightarrow> fp \<Rightarrow> fp" where
  "fp_div fmt a b =
     (if a = NaN \<or> b = NaN then NaN
      else if fp_is_inf a then (if fp_is_inf b then NaN else fp_inf (fp_negative a \<noteq> fp_negative b))
      else if fp_is_inf b then fp_zero (fp_negative a \<noteq> fp_negative b)
      else if fp_is_zero b then (if fp_is_zero a then NaN else fp_inf (fp_negative a \<noteq> fp_negative b))
      else if fp_is_zero a then fp_zero (fp_negative a \<noteq> fp_negative b)
      else fp_round fmt (fp_value a / fp_value b))"

definition fp_mul :: "format \<Rightarrow> fp \<Rightarrow> fp \<Rightarrow> fp" where
  "fp_mul fmt a b =
     (if a = NaN \<or> b = NaN then NaN
      else if fp_is_inf a \<or> fp_is_inf b
        then (if fp_is_zero a \<or> fp_is_zero b then NaN else fp_inf (fp_negative a \<noteq> fp_negative b))
      else if fp_is_zero a \<or> fp_is_zero b then fp_zero (fp_negative a \<noteq> fp_negative b)
      else fp_round fmt (fp_value a * fp_value b))"

text \<open>
  Addition: the sum of two zeros is \<open>-0\<close> only if both are; an exact sum of zero
  from non-zero operands is \<open>+0\<close>.
\<close>

definition fp_add :: "format \<Rightarrow> fp \<Rightarrow> fp \<Rightarrow> fp" where
  "fp_add fmt a b =
     (if a = NaN \<or> b = NaN then NaN
      else if fp_is_inf a then (if fp_is_inf b \<and> a \<noteq> b then NaN else a)
      else if fp_is_inf b then b
      else if a = NegZero \<and> b = NegZero then NegZero
      else fp_round fmt (fp_value a + fp_value b))"

definition fp_sub :: "format \<Rightarrow> fp \<Rightarrow> fp \<Rightarrow> fp" where
  "fp_sub fmt a b = fp_add fmt a (fp_neg b)"

text \<open>A conversion between the formats, as \<open>static_cast<float>\<close> of a \<open>double\<close>.\<close>

definition fp_convert :: "format \<Rightarrow> fp \<Rightarrow> fp" where
  "fp_convert fmt a = (case a of Finite x \<Rightarrow> fp_round fmt x | _ \<Rightarrow> a)"

text \<open>
  The comparisons \<open><\<close> and \<open>\<le>\<close>: false if an operand is NaN; the two zeros are equal.
  \<open>a > b\<close> is \<open>fp_less b a\<close>.
\<close>

definition fp_less :: "fp \<Rightarrow> fp \<Rightarrow> bool" where
  "fp_less a b =
     (a \<noteq> NaN \<and> b \<noteq> NaN \<and>
      (if a = NegInf then b \<noteq> NegInf
       else if b = PosInf then a \<noteq> PosInf
       else \<not> fp_is_inf a \<and> \<not> fp_is_inf b \<and> fp_value a < fp_value b))"

definition fp_less_eq :: "fp \<Rightarrow> fp \<Rightarrow> bool" where
  "fp_less_eq a b =
     (a \<noteq> NaN \<and> b \<noteq> NaN \<and>
      (a = NegInf \<or> b = PosInf \<or> (\<not> fp_is_inf a \<and> \<not> fp_is_inf b \<and> fp_value a \<le> fp_value b)))"

definition vec_add :: "vec2 \<Rightarrow> vec2 \<Rightarrow> vec2" where
  "vec_add u v = (fp_add binary64 (fst u) (fst v), fp_add binary64 (snd u) (snd v))"

definition vec_sub :: "vec2 \<Rightarrow> vec2 \<Rightarrow> vec2" where
  "vec_sub u v = (fp_sub binary64 (fst u) (fst v), fp_sub binary64 (snd u) (snd v))"

section \<open>Queries\<close>

text \<open>
  \<open>QuadIndex\<close> is not part of the sources. What \<open>findGeometries\<close> does, as far as the
  engine can tell, is this: it calls the lookup function it was built with, with a batch
  of quad indices and a point converter, any number of times, each call depending on
  the answers so far, and then returns its results, pairs of an entity id and a
  distance. \<open>Found\<close> is the return and \<open>Lookup\<close> a call with its continuation.
\<close>

datatype 'g quad_search =
  Found "(64 word \<times> fp) list"
| Lookup "64 word list" "vec2 \<Rightarrow> vec2" "'g geometry_info list \<Rightarrow> 'g quad_search"

text \<open>
  The functions that the two query methods call and the sources do not define:
  \<open>wgs84Meters\<close> of \<open>ProjUtils.h\<close>, \<open>bbox2::nearest_point\<close> and \<open>length\<close> of cglib,
  \<open>QuadIndex::findGeometries\<close> (by longitude, latitude and radius),
  \<open>Address::buildTypeFilter\<close>, \<open>Address::loadFromDB\<close> (by store, entity id, language
  and point converter), \<open>FeatureReader::readFeatureCollection\<close> (by blob and point
  converter; what it yields of a feature is its geometry, if any) and
  \<open>AddressInterpolator::enumerateAddresses\<close> (by house numbers, blob and point
  converter).
\<close>

record ('ty, 'a, 'g) collaborators =
  wgs84Meters :: "vec2 \<Rightarrow> vec2"
  nearest_point :: "bbox2 \<Rightarrow> vec2 \<Rightarrow> vec2"
  vec_length :: "vec2 \<Rightarrow> fp"
  findGeometries :: "fp \<Rightarrow> fp \<Rightarrow> fp \<Rightarrow> 'g quad_search"
  buildTypeFilter :: "'ty list \<Rightarrow> string"
  loadFromDB :: "store \<Rightarrow> 64 word \<Rightarrow> string \<Rightarrow> (vec2 \<Rightarrow> vec2) \<Rightarrow> 'a"
  readFeatureCollection :: "string \<Rightarrow> (vec2 \<Rightarrow> vec2) \<Rightarrow> 'g option list"
  enumerateAddresses :: "string \<Rightarrow> string \<Rightarrow> (vec2 \<Rightarrow> vec2) \<Rightarrow> (string \<times> 'g option list) list"

subsection \<open>\<open>findGeometryInfo\<close>\<close>

text \<open>Lines 102 to 109: the text of the statement.\<close>

fun join_commas :: "string list \<Rightarrow> string" where
  "join_commas [] = []"
| "join_commas [s] = s"
| "join_commas (s # t # ts) = s @ '','' @ join_commas (t # ts)"

definition entities_sql :: "('ty list \<Rightarrow> string) \<Rightarrow> 'ty list \<Rightarrow> 64 word list \<Rightarrow> string" where
  "entities_sql filter_text filters quadIndices =
     ''SELECT id, features, housenumbers FROM entities WHERE quadindex in (''
       @ join_commas (map (\<lambda>q. to_decimal (unat q)) quadIndices) @ '')''
       @ (if filters \<noteq> [] then '' AND ('' @ filter_text filters @ '')'' else [])"

text \<open>The geometries of the features that have one (lines 132 to 136 and 142 to 146).\<close>

definition feature_geometries :: "'g option list \<Rightarrow> 'g list" where
  "feature_geometries features = List.map_filter (\<lambda>f. f) features"

text \<open>
  Lines 119 to 148, for one row: the geometry infos of its interpolated addresses if
  it has house numbers, otherwise the one of the row itself.
\<close>

definition row_geometry_infos ::
  "('ty, 'a, 'g) collaborators \<Rightarrow> database \<Rightarrow> (vec2 \<Rightarrow> vec2) \<Rightarrow> entity_row \<Rightarrow> 'g geometry_info list" where
  "row_geometry_infos env database converter row =
     (case row_housenumbers row of
        Some houseNumbers \<Rightarrow>
          map (\<lambda>(i, result). (encodedId (of_nat i) (row_id row), feature_geometries (snd result)))
            (enumerate 0
              (enumerateAddresses env houseNumbers (row_features row)
                (\<lambda>pos. converter (vec_add (db_origin database) pos))))
      | None \<Rightarrow>
          [(directId (row_id row),
            feature_geometries
              (readFeatureCollection env (row_features row)
                (\<lambda>pos. converter (vec_add (db_origin database) pos))))])"

definition findGeometryInfo ::
  "('ty, 'a, 'g) collaborators \<Rightarrow> database \<Rightarrow> 64 word list \<Rightarrow> (vec2 \<Rightarrow> vec2) \<Rightarrow>
     ('ty, 'a, 'g) rev_geocoder \<Rightarrow> 'g geometry_info list \<times> ('ty, 'a, 'g) rev_geocoder" where
  "findGeometryInfo env database quadIndices converter g =
     (let sql = entities_sql (buildTypeFilter env) (enabledFilters g) quadIndices;
          queryKey = db_id database @ ''_'' @ sql
      in case cache_read (queryCache g) queryKey of
           (Some geomInfos, cache) \<Rightarrow> (geomInfos, g\<lparr>queryCache := cache\<rparr>)
         | (None, cache) \<Rightarrow>
             (let geomInfos =
                    concat (map (row_geometry_infos env database converter)
                      (select_entities (db_store database) sql))
              in (geomInfos,
                  g\<lparr>queryCache := cache_put cache queryKey geomInfos,
                    entityQueryCounter := entityQueryCounter g + 1\<rparr>)))"

subsection \<open>\<open>findAddresses\<close>\<close>

text \<open>
  Lines 68 to 77: is the database skipped. \<open>dist > _radius\<close> compares a \<open>double\<close> with
  a \<open>float\<close>, which is first widened, without change of value.
\<close>

definition bounds_distance :: "('ty, 'a, 'g) collaborators \<Rightarrow> bbox2 \<Rightarrow> fp \<Rightarrow> fp \<Rightarrow> fp" where
  "bounds_distance env bounds lng lat =
     (let lngLatMeters = wgs84Meters env (lng, lat);
          point = nearest_point env bounds (lng, lat);
          diff = vec_sub point (lng, lat)
      in vec_length env
           (fp_mul binary64 (fst diff) (fst lngLatMeters),
            fp_mul binary64 (snd diff) (snd lngLatMeters)))"

definition out_of_bounds ::
  "('ty, 'a, 'g) collaborators \<Rightarrow> database \<Rightarrow> fp \<Rightarrow> fp \<Rightarrow> fp \<Rightarrow> bool" where
  "out_of_bounds env database lng lat r =
     (case db_bounds database of
        None \<Rightarrow> False
      | Some bounds \<Rightarrow> fp_less r (bounds_distance env bounds lng lat))"

text \<open>
  The run of \<open>findGeometries\<close> with \<open>findGeometryInfo\<close> for the database as its lookup
  function (lines 80 and 81).
\<close>

primrec run_search ::
  "(64 word list \<Rightarrow> (vec2 \<Rightarrow> vec2) \<Rightarrow> 's \<Rightarrow> 'g geometry_info list \<times> 's) \<Rightarrow>
     'g quad_search \<Rightarrow> 's \<Rightarrow> (64 word \<times> fp) list \<times> 's" where
  "run_search lookup (Found results) = (\<lambda>g. (results, g))"
| "run_search lookup (Lookup quadIndices converter continue) =
     (\<lambda>g. case lookup quadIndices converter g of
             (geomInfos, g') \<Rightarrow> run_search lookup (continue geomInfos) g')"

text \<open>Line 84: the rank of a result at distance \<open>d\<close>, in \<open>float\<close> arithmetic.\<close>

definition rank :: "fp \<Rightarrow> fp \<Rightarrow> fp" where
  "rank r d = fp_sub binary32 (Finite 1) (fp_div binary32 (fp_convert binary32 d) r)"

text \<open>Lines 86 to 93: the address of an entity, from the cache or from the store.\<close>

definition resolve_address ::
  "('ty, 'a, 'g) collaborators \<Rightarrow> database \<Rightarrow> 64 word \<Rightarrow>
     ('ty, 'a, 'g) rev_geocoder \<Rightarrow> 'a \<times> ('ty, 'a, 'g) rev_geocoder" where
  "resolve_address env database entityId g =
     (let addrKey = db_id database @ ''_'' @ to_decimal (unat entityId)
      in case cache_read (addressCache g) addrKey of
           (Some address, cache) \<Rightarrow> (address, g\<lparr>addressCache := cache\<rparr>)
         | (None, cache) \<Rightarrow>
             (let address =
                    loadFromDB env (db_store database) entityId (language g)
                      (\<lambda>pos. vec_add (db_origin database) pos)
              in (address, g\<lparr>addressCache := cache_put cache addrKey address\<rparr>)))"

text \<open>Lines 83 to 96: the loop over the results of one database.\<close>

fun rank_results ::
  "('ty, 'a, 'g) collaborators \<Rightarrow> database \<Rightarrow> (64 word \<times> fp) list \<Rightarrow>
     ('ty, 'a, 'g) rev_geocoder \<Rightarrow> ('a \<times> fp) list \<times> ('ty, 'a, 'g) rev_geocoder" where
  "rank_results env database [] g = ([], g)"
| "rank_results env database (result # results) g =
     (if fp_less (Finite 0) (rank (radius g) (snd result))
      then (case resolve_address env database (fst result) g of
              (address, g') \<Rightarrow>
                (case rank_results env database results g' of
                   (addresses, g'') \<Rightarrow> ((address, rank (radius g) (snd result)) # addresses, g'')))
      else rank_results env database results g)"

text \<open>Lines 67 to 97: the loop over the databases, and the method.\<close>

fun query_databases ::
  "('ty, 'a, 'g) collaborators \<Rightarrow> fp \<Rightarrow> fp \<Rightarrow> database list \<Rightarrow>
     ('ty, 'a, 'g) rev_geocoder \<Rightarrow> ('a \<times> fp) list \<times> ('ty, 'a, 'g) rev_geocoder" where
  "query_databases env lng lat [] g = ([], g)"
| "query_databases env lng lat (database # dbs) g =
     (if out_of_bounds env database lng lat (radius g) then query_databases env lng lat dbs g
      else
        (case run_search (findGeometryInfo env database)
                (findGeometries env lng lat (radius g))
                (g\<lparr>previousEntityQueryCounter := entityQueryCounter g\<rparr>) of
           (results, g1) \<Rightarrow>
             (case rank_results env database results g1 of
                (found, g2) \<Rightarrow>
                  (case query_databases env lng lat dbs g2 of
                     (addresses, g3) \<Rightarrow> (found @ addresses, g3)))))"

definition findAddresses ::
  "('ty, 'a, 'g) collaborators \<Rightarrow> fp \<Rightarrow> fp \<Rightarrow>
     ('ty, 'a, 'g) rev_geocoder \<Rightarrow> ('a \<times> fp) list \<times> ('ty, 'a, 'g) rev_geocoder" where
  "findAddresses env lng lat g = query_databases env lng lat (databases g) g"

subsection \<open>What a search can return\<close>

text \<open>The result lists that a search returns for some answers of the lookup function.\<close>

primrec outcomes :: "'g quad_search \<Rightarrow> (64 word \<times> fp) list set" where
  "outcomes (Found results) = {results}"
| "outcomes (Lookup quadIndices converter continue) = (\<Union>geomInfos. outcomes (continue geomInfos))"

text \<open>
  Modelled from the spec: \<open>QuadIndex::findGeometries\<close> is not part of the sources.
  Section 4.5 has it return the candidates within the radius of the query point, each
  with its distance: a distance is not negative, and not above the radius.
\<close>

definition distances_nonnegative :: "'g quad_search \<Rightarrow> bool" where
  "distances_nonnegative search =
     (\<forall>results \<in> outcomes search. \<forall>result \<in> set results. fp_less_eq (Finite 0) (snd result))"

definition distances_within :: "fp \<Rightarrow> 'g quad_search \<Rightarrow> bool" where
  "distances_within r search =
     (\<forall>results \<in> outcomes search. \<forall>result \<in> set results.
        fp_less_eq (Finite 0) (snd result) \<and> fp_less_eq (snd result) r)"

text \<open>The configuration of the engine: what a query reads and does not change.\<close>

definition settings ::
  "('ty, 'a, 'g) rev_geocoder \<Rightarrow> database list \<times> fp \<times> string \<times> 'ty list" where
  "settings g = (databases g, radius g, language g, enabledFilters g)"

section \<open>Queries without caches\<close>

text \<open>
  What the two query methods compute when every cache read misses: the geometry
  infos that the store and the decoders yield for a batch of quad indices, the address
  that \<open>loadFromDB\<close> yields for an entity, the results of a search whose lookups are
  answered so, and the ranked addresses of all databases. These functions read the
  configuration only; the cached methods are compared with them.
\<close>

definition stored_geometry_infos ::
  "('ty, 'a, 'g) collaborators \<Rightarrow> database \<Rightarrow> (vec2 \<Rightarrow> vec2) \<Rightarrow> string \<Rightarrow> 'g geometry_info list" where
  "stored_geometry_infos env database converter sql =
     concat (map (row_geometry_infos env database converter)
       (select_entities (db_store database) sql))"

definition stored_address ::
  "('ty, 'a, 'g) collaborators \<Rightarrow> database \<Rightarrow> string \<Rightarrow> 64 word \<Rightarrow> 'a" where
  "stored_address env database lang entityId =
     loadFromDB env (db_store database) entityId lang (\<lambda>pos. vec_add (db_origin database) pos)"

primrec search_results ::
  "(64 word list \<Rightarrow> (vec2 \<Rightarrow> vec2) \<Rightarrow> 'g geometry_info list) \<Rightarrow> 'g quad_search \<Rightarrow>
     (64 word \<times> fp) list" where
  "search_results lookup (Found results) = results"
| "search_results lookup (Lookup quadIndices converter continue) =
     search_results lookup (continue (lookup quadIndices converter))"

definition uncached_ranked ::
  "('ty, 'a, 'g) collaborators \<Rightarrow> database \<Rightarrow> string \<Rightarrow> fp \<Rightarrow> (64 word \<times> fp) list \<Rightarrow>
     ('a \<times> fp) list" where
  "uncached_ranked env database lang r results =
     map (\<lambda>result. (stored_address env database lang (fst result), rank r (snd result)))
       (filter (\<lambda>result. fp_less (Finite 0) (rank r (snd result))) results)"

definition uncached_findAddresses ::
  "('ty, 'a, 'g) collaborators \<Rightarrow> fp \<Rightarrow> fp \<Rightarrow> database list \<times> fp \<times> string \<times> 'ty list \<Rightarrow>
     ('a \<times> fp) list" where
  "uncached_findAddresses env lng lat config =
     (case config of (dbs, r, lang, filters) \<Rightarrow>
        concat (map (\<lambda>database.
            if out_of_bounds env database lng lat r then []
            else uncached_ranked env database lang r
                   (search_results
                      (\<lambda>quadIndices converter.
                         stored_geometry_infos env database converter
                           (entities_sql (buildTypeFilter env) filters quadIndices))
                      (findGeometries env lng lat r)))
          dbs))"

text \<open>
  The results that the searches of one call of \<open>findAddresses\<close> return to it (line 81),
  each list with the database that was searched, in the order of the loop of line 67.
  It follows \<open>query_databases\<close>, with the caches as the call leaves them from one
  database to the next.
\<close>

fun reported_results ::
  "('ty, 'a, 'g) collaborators \<Rightarrow> fp \<Rightarrow> fp \<Rightarrow> database list \<Rightarrow>
     ('ty, 'a, 'g) rev_geocoder \<Rightarrow> (database \<times> (64 word \<times> fp) list) list" where
  "reported_results env lng lat [] g = []"
| "reported_results env lng lat (database # dbs) g =
     (if out_of_bounds env database lng lat (radius g) then reported_results env lng lat dbs g
      else
        (case run_search (findGeometryInfo env database)
                (findGeometries env lng lat (radius g))
                (g\<lparr>previousEntityQueryCounter := entityQueryCounter g\<rparr>) of
           (results, g1) \<Rightarrow>
             (database, results)
               # reported_results env lng lat dbs (snd (rank_results env database results g1))))"

subsection \<open>Caches that agree with the stores\<close>

text \<open>
  The key of the geometry-info cache is made of the database and the statement; the
  point converter that \<open>findGeometryInfo\<close> receives is not part of it, although the
  geometries stored under the key were decoded with it. \<open>single_converter c\<close> says of
  a search that each of its lookups receives the converter \<open>c\<close>. It is a condition on
  the index, which neither the sources nor the specification state.
\<close>

primrec single_converter :: "(vec2 \<Rightarrow> vec2) \<Rightarrow> 'g quad_search \<Rightarrow> bool" where
  "single_converter c (Found results) = True"
| "single_converter c (Lookup quadIndices converter continue) =
     (converter = c \<and> (\<forall>geomInfos. single_converter c (continue geomInfos)))"

text \<open>
  Caches whose entries are what the stores yield: every entry of the address cache
  was loaded for a registered database and an entity in the active language, and
  every entry of the geometry-info cache was read from a registered database for the
  statement in its key and decoded with the given converter. \<open>addresses_sound\<close> is the
  first of these together with the ids that \<open>import\<close> gives to the databases, which
  keep the keys of different databases apart; \<open>caches_sound\<close> adds the second.
\<close>

definition address_cache_sound ::
  "('ty, 'a, 'g) collaborators \<Rightarrow> ('ty, 'a, 'g) rev_geocoder \<Rightarrow> bool" where
  "address_cache_sound env g =
     (\<forall>entry \<in> set (entries (addressCache g)).
        \<exists>database \<in> set (databases g). \<exists>entityId.
          fst entry = db_id database @ ''_'' @ to_decimal (unat entityId)
          \<and> snd entry = stored_address env database (language g) entityId)"

definition query_cache_sound ::
  "('ty, 'a, 'g) collaborators \<Rightarrow> (vec2 \<Rightarrow> vec2) \<Rightarrow> ('ty, 'a, 'g) rev_geocoder \<Rightarrow> bool" where
  "query_cache_sound env converter g =
     (\<forall>entry \<in> set (entries (queryCache g)).
        \<exists>database \<in> set (databases g). \<exists>sql.
          fst entry = db_id database @ ''_'' @ sql
          \<and> snd entry = stored_geometry_infos env database converter sql)"

definition addresses_sound ::
  "('ty, 'a, 'g) collaborators \<Rightarrow> ('ty, 'a, 'g) rev_geocoder \<Rightarrow> bool" where
  "addresses_sound env g = (sequential_ids (databases g) \<and> address_cache_sound env g)"

definition caches_sound ::
  "('ty, 'a, 'g) collaborators \<Rightarrow> (vec2 \<Rightarrow> vec2) \<Rightarrow> ('ty, 'a, 'g) rev_geocoder \<Rightarrow> bool" where
  "caches_sound env converter g =
     (sequential_ids (databases g) \<and> address_cache_sound env g
      \<and> query_cache_sound env converter g)"

text \<open>The engine with both caches emptied.\<close>

definition clear_caches :: "('ty, 'a, 'g) rev_geocoder \<Rightarrow> ('ty, 'a, 'g) rev_geocoder" where
  "clear_caches g =
     g\<lparr>addressCache := cache_clear (addressCache g), queryCache := cache_clear (queryCache g)\<rparr>"

text \<open>
  The engines that the public methods produce, from one that has no database, no
  enabled filter and empty caches. \<open>lc\<close> is \<open>boost::lexical_cast<double>\<close>, which
  \<open>import\<close> uses.
\<close>

inductive reachable ::
  "('ty, 'a, 'g) collaborators \<Rightarrow> (string \<Rightarrow> fp option) \<Rightarrow> ('ty, 'a, 'g) rev_geocoder \<Rightarrow> bool"
  for env :: "('ty, 'a, 'g) collaborators" and lc :: "string \<Rightarrow> fp option" where
  created: "databases g = [] \<Longrightarrow> enabledFilters g = [] \<Longrightarrow> entries (addressCache g) = []
     \<Longrightarrow> entries (queryCache g) = [] \<Longrightarrow> reachable env lc g"
| imported: "reachable env lc g \<Longrightarrow> reachable env lc (snd (import lc s g))"
| radius_set: "reachable env lc g \<Longrightarrow> reachable env lc (setRadius r g)"
| language_set: "reachable env lc g \<Longrightarrow> reachable env lc (setLanguage l g)"
| filter_set: "reachable env lc g \<Longrightarrow> reachable env lc (setFilterEnabled t enabled g)"
| queried: "reachable env lc g \<Longrightarrow> reachable env lc (snd (findAddresses env lng lat g))"

section \<open>Concrete instances\<close>

text \<open>
  An engine without databases and a store without entities, to apply the theorems
  below to concrete inputs. Address types are numbers here; addresses and geometries
  carry no data.
\<close>

definition sample_engine :: "(nat, unit, unit) rev_geocoder" where
  "sample_engine =
     \<lparr>databases = [], radius = Finite 50, language = ''en'', enabledFilters = [],
      addressCache = \<lparr>capacity = 2, entries = []\<rparr>,
      queryCache = \<lparr>capacity = 2, entries = []\<rparr>,
      entityQueryCounter = 0, previousEntityQueryCounter = 0\<rparr>"

definition sample_store :: "(string \<times> string) list \<Rightarrow> store" where
  "sample_store md = \<lparr>metadata = md, select_entities = (\<lambda>sql. [])\<rparr>"

text \<open>
  Modelled from the spec: the functions of cglib and \<open>ProjUtils.h\<close> are not part of the
  sources. In the concrete instances the nearest point of an envelope is the query
  point with each coordinate moved into the interval of the envelope, the length is
  the Euclidean one, and the meters per degree are those at the equator (section 4.6,
  step 1).
\<close>

definition sample_clamp :: "fp \<Rightarrow> fp \<Rightarrow> fp \<Rightarrow> fp" where
  "sample_clamp lo hi x = (if fp_less x lo then lo else if fp_less hi x then hi else x)"

definition sample_nearest_point :: "bbox2 \<Rightarrow> vec2 \<Rightarrow> vec2" where
  "sample_nearest_point b p =
     (sample_clamp (fst (bmin b)) (fst (bmax b)) (fst p),
      sample_clamp (snd (bmin b)) (snd (bmax b)) (snd p))"

definition sample_length :: "vec2 \<Rightarrow> fp" where
  "sample_length v =
     (case v of
        (Finite x, Finite y) \<Rightarrow> fp_round binary64 (sqrt (x * x + y * y))
      | _ \<Rightarrow> NaN)"

text \<open>
  Collaborators for the concrete instances: the search is given; stores hold no
  entities, so the decoders have nothing to decode.
\<close>

definition sample_collaborators :: "unit quad_search \<Rightarrow> (nat, unit, unit) collaborators" where
  "sample_collaborators search =
     \<lparr>wgs84Meters = (\<lambda>p. (Finite 111319, Finite 110574)),
      nearest_point = sample_nearest_point,
      vec_length = sample_length,
      findGeometries = (\<lambda>lng lat r. search),
      buildTypeFilter = (\<lambda>types. []),
      loadFromDB = (\<lambda>s entityId lang converter. ()),
      readFeatureCollection = (\<lambda>blob converter. []),
      enumerateAddresses = (\<lambda>houseNumbers blob converter. [])\<rparr>"

text \<open>A database without bounds, and one whose bounds end at the meridian of 180 degrees.\<close>

definition sample_database :: database where
  "sample_database =
     \<lparr>db_id = ''db0'', db_store = sample_store [], db_bounds = None,
      db_origin = (Finite 0, Finite 0)\<rparr>"

definition sample_bounded_database :: database where
  "sample_bounded_database =
     \<lparr>db_id = ''db0'', db_store = sample_store [(''bounds'', ''-180,-1,-179,1'')],
      db_bounds = Some \<lparr>bmin = (Finite (- 180), Finite (- 1)), bmax = (Finite (- 179), Finite 1)\<rparr>,
      db_origin = (Finite 0, Finite 0)\<rparr>"

text \<open>
  A second set of instances, in which the stores hold an entity and the addresses and
  geometries carry data: an address is the pair of the entity id and the language it
  was loaded for, and a geometry is a point. The capacity of the geometry-info cache
  is 1.
\<close>

definition demo_engine :: "(nat, 64 word \<times> string, vec2) rev_geocoder" where
  "demo_engine =
     \<lparr>databases = [], radius = Finite 50, language = ''en'', enabledFilters = [],
      addressCache = \<lparr>capacity = 2, entries = []\<rparr>,
      queryCache = \<lparr>capacity = 1, entries = []\<rparr>,
      entityQueryCounter = 0, previousEntityQueryCounter = 0\<rparr>"

text \<open>
  The store has no metadata and one entity, with the row id 7, in the quad cell 1: it
  is the row of the statement that \<open>findGeometryInfo\<close> builds for this cell when no
  filter is enabled. Its feature blob \<open>P\<close> stands for a point at \<open>(1, 0)\<close>.
\<close>

definition demo_store :: store where
  "demo_store =
     \<lparr>metadata = [],
      select_entities = (\<lambda>sql.
        if sql = entities_sql (\<lambda>types. []) ([] :: nat list) [1]
        then [\<lparr>row_id = 7, row_features = ''P'', row_housenumbers = None\<rparr>]
        else [])\<rparr>"

definition demo_database :: database where
  "demo_database =
     \<lparr>db_id = ''db0'', db_store = demo_store, db_bounds = None,
      db_origin = (Finite 0, Finite 0)\<rparr>"

text \<open>
  Collaborators for these instances: the index is given; \<open>loadFromDB\<close> yields the
  entity id and the language, and \<open>readFeatureCollection\<close> the converted point of the
  blob \<open>P\<close>.
\<close>

definition demo_collaborators ::
  "(fp \<Rightarrow> fp \<Rightarrow> fp \<Rightarrow> vec2 quad_search) \<Rightarrow> (nat, 64 word \<times> string, vec2) collaborators" where
  "demo_collaborators index =
     \<lparr>wgs84Meters = (\<lambda>p. (Finite 111319, Finite 110574)),
      nearest_point = sample_nearest_point,
      vec_length = sample_length,
      findGeometries = index,
      buildTypeFilter = (\<lambda>types. []),
      loadFromDB = (\<lambda>s entityId lang converter. (entityId, lang)),
      readFeatureCollection = (\<lambda>blob converter.
        if blob = ''P'' then [Some (converter (Finite 1, Finite 0))] else []),
      enumerateAddresses = (\<lambda>houseNumbers blob converter. [])\<rparr>"

text \<open>
  Two indexes that find the same entities at the same distances when no lookup is
  answered from a cache. Both read the quad cell 1 for every query, and the quad
  cell 2 as well for a query west of the longitude 1, and report every geometry of
  the cells read that is within the radius, with its distance from the query point.
  The local index has its lookups convert the points to coordinates relative to the
  query point, and the distance is the length of the converted point; the other index
  leaves the points as they are and takes the length of the difference to the query
  point.
\<close>

definition demo_distances ::
  "(vec2 \<Rightarrow> fp) \<Rightarrow> fp \<Rightarrow> vec2 geometry_info list \<Rightarrow> (64 word \<times> fp) list" where
  "demo_distances distance r geomInfos =
     filter (\<lambda>result. fp_less_eq (snd result) r)
       (concat (map (\<lambda>geomInfo. map (\<lambda>geom. (fst geomInfo, distance geom)) (snd geomInfo))
          geomInfos))"

definition demo_cells ::
  "(vec2 \<Rightarrow> vec2) \<Rightarrow> (vec2 \<Rightarrow> fp) \<Rightarrow> fp \<Rightarrow> fp \<Rightarrow> vec2 quad_search" where
  "demo_cells converter distance lng r =
     Lookup [1] converter (\<lambda>candidates.
       if fp_less lng (Finite 1)
       then Lookup [2] converter (\<lambda>others. Found (demo_distances distance r (candidates @ others)))
       else Found (demo_distances distance r candidates))"

definition local_index :: "fp \<Rightarrow> fp \<Rightarrow> fp \<Rightarrow> vec2 quad_search" where
  "local_index lng lat r = demo_cells (\<lambda>pos. vec_sub pos (lng, lat)) sample_length lng r"

definition global_index :: "fp \<Rightarrow> fp \<Rightarrow> fp \<Rightarrow> vec2 quad_search" where
  "global_index lng lat r =
     demo_cells (\<lambda>pos. pos) (\<lambda>geom. sample_length (vec_sub geom (lng, lat))) lng r"

text \<open>
  The engine after \<open>setRadius(2)\<close> and the import of the store, and the engine after a
  first query at the point \<open>(1, 0)\<close>, where the entity lies.
\<close>

definition demo_imported :: "(nat, 64 word \<times> string, vec2) rev_geocoder" where
  "demo_imported = snd (import integer_literal demo_store (setRadius (Finite 2) demo_engine))"

definition demo_warm ::
  "(fp \<Rightarrow> fp \<Rightarrow> fp \<Rightarrow> vec2 quad_search) \<Rightarrow> (nat, 64 word \<times> string, vec2) rev_geocoder" where
  "demo_warm index =
     snd (findAddresses (demo_collaborators index) (Finite 1) (Finite 0) demo_imported)"

text \<open>
  The engines of these instances: one database, the language \<open>en\<close>, no filter, and
  the given radius, cache entries and counters.
\<close>

definition demo_state ::
  "fp \<Rightarrow> (string \<times> (64 word \<times> string)) list \<Rightarrow> (string \<times> vec2 geometry_info list) list \<Rightarrow>
     nat \<Rightarrow> nat \<Rightarrow> (nat, 64 word \<times> string, vec2) rev_geocoder" where
  "demo_state r addresses geomInfos n m =
     \<lparr>databases = [demo_database], radius = r, language = ''en'', enabledFilters = [],
      addressCache = \<lparr>capacity = 2, entries = addresses\<rparr>,
      queryCache = \<lparr>capacity = 1, entries = geomInfos\<rparr>,
      entityQueryCounter = n, previousEntityQueryCounter = m\<rparr>"

section \<open>Properties of the configuration methods\<close>

lemma count_list_distinct_mem:
  "distinct xs \<Longrightarrow> t \<in> set xs \<Longrightarrow> count_list xs t = 1"
  by (induction xs) (auto simp: count_list_0_iff)

lemma setFilterEnabled_distinct:
  "distinct (enabledFilters g) \<Longrightarrow> distinct (enabledFilters (setFilterEnabled t e g))"
  by (simp add: setFilterEnabled_def)

text \<open>
  C10. \<open>setRadius\<close> stores its argument as it is, whatever the value (negative, zero,
  infinite or NaN): \<open>getRadius\<close> then returns it, and every other member is unchanged.
\<close>

theorem setRadius_stores_any_value:
  "getRadius (setRadius r g) = r
   \<and> databases (setRadius r g) = databases g
   \<and> language (setRadius r g) = language g
   \<and> enabledFilters (setRadius r g) = enabledFilters g
   \<and> addressCache (setRadius r g) = addressCache g
   \<and> queryCache (setRadius r g) = queryCache g
   \<and> entityQueryCounter (setRadius r g) = entityQueryCounter g
   \<and> previousEntityQueryCounter (setRadius r g) = previousEntityQueryCounter g
   \<and> setRadius r g = g\<lparr>radius := r\<rparr>"
  by (simp add: getRadius_def setRadius_def)

text \<open>
  C5. \<open>setLanguage\<close> sets the active language and empties the address cache; the
  geometry-info cache, the database list, the radius and the enabled filters are
  unchanged.
\<close>

theorem setLanguage_clears_address_cache_only:
  "getLanguage (setLanguage l g) = l
   \<and> entries (addressCache (setLanguage l g)) = []
   \<and> queryCache (setLanguage l g) = queryCache g
   \<and> databases (setLanguage l g) = databases g
   \<and> radius (setLanguage l g) = radius g
   \<and> enabledFilters (setLanguage l g) = enabledFilters g"
  by (simp add: getLanguage_def setLanguage_def cache_clear_def)

text \<open>
  C7. Enabling a type twice gives the same engine as enabling it once; the enabled
  types are then the ones before and the type itself. A filter vector without
  duplicates stays so (it is empty at first), and the type is then in it exactly once.
  Disabling a type that is not in the vector changes nothing. \<open>isFilterEnabled\<close> is
  membership in the vector: after enabling \<open>t\<close> it holds of \<open>t\<close> and of the types
  enabled before, and of no other; after disabling an absent \<open>t\<close> it does not hold of
  \<open>t\<close>.
\<close>

theorem setFilterEnabled_idempotent:
  "setFilterEnabled t True (setFilterEnabled t True g) = setFilterEnabled t True g
   \<and> set (enabledFilters (setFilterEnabled t True g)) = insert t (set (enabledFilters g))
   \<and> (distinct (enabledFilters g) \<longrightarrow>
         distinct (enabledFilters (setFilterEnabled t True g))
         \<and> count_list (enabledFilters (setFilterEnabled t True g)) t = 1)
   \<and> (t \<notin> set (enabledFilters g) \<longrightarrow>
         setFilterEnabled t False g = g \<and> \<not> isFilterEnabled (setFilterEnabled t False g) t)
   \<and> isFilterEnabled g u = (u \<in> set (enabledFilters g))
   \<and> isFilterEnabled (setFilterEnabled t True g) u = (u = t \<or> u \<in> set (enabledFilters g))
   \<and> isFilterEnabled (setFilterEnabled t True (setFilterEnabled t True g)) u
       = (u = t \<or> u \<in> set (enabledFilters g))"
proof -
  have once: "count_list (enabledFilters (setFilterEnabled t True g)) t = 1"
    if "distinct (enabledFilters g)"
  proof (cases "t \<in> set (enabledFilters g)")
    case True
    with that count_list_distinct_mem show ?thesis
      by (simp add: setFilterEnabled_def)
  next
    case False
    then show ?thesis
      by (simp add: setFilterEnabled_def count_list_0_iff)
  qed
  have twice: "setFilterEnabled t True (setFilterEnabled t True g) = setFilterEnabled t True g"
    by (simp add: setFilterEnabled_def)
  have types: "set (enabledFilters (setFilterEnabled t True g)) = insert t (set (enabledFilters g))"
    by (auto simp: setFilterEnabled_def)
  have absent: "t \<notin> set (enabledFilters g) \<longrightarrow>
      setFilterEnabled t False g = g \<and> \<not> isFilterEnabled (setFilterEnabled t False g) t"
    by (simp add: setFilterEnabled_def isFilterEnabled_def)
  have member: "isFilterEnabled h v = (v \<in> set (enabledFilters h))"
    for h :: "('a, 'b, 'c) rev_geocoder" and v
    by (simp add: isFilterEnabled_def)
  have after: "isFilterEnabled (setFilterEnabled t True g) u = (u = t \<or> u \<in> set (enabledFilters g))"
    unfolding member types by simp
  from once twice types absent after member [of g u] member [of g t]
    setFilterEnabled_distinct [of g t True]
  show ?thesis
    by simp
qed

theorem setFilterEnabled_idempotent_witness:
  "distinct (enabledFilters (sample_engine\<lparr>enabledFilters := [3, 5]\<rparr>))
   \<and> enabledFilters (setFilterEnabled 7 True (setFilterEnabled 7 True
         (sample_engine\<lparr>enabledFilters := [3, 5]\<rparr>))) = [3, 5, 7]
   \<and> count_list (enabledFilters (setFilterEnabled 3 True
         (sample_engine\<lparr>enabledFilters := [3, 5]\<rparr>))) 3 = 1
   \<and> setFilterEnabled 7 False (sample_engine\<lparr>enabledFilters := [3, 5]\<rparr>)
       = sample_engine\<lparr>enabledFilters := [3, 5]\<rparr>
   \<and> isFilterEnabled (setFilterEnabled 7 True (sample_engine\<lparr>enabledFilters := [3, 5]\<rparr>)) 7
   \<and> isFilterEnabled (setFilterEnabled 7 True (sample_engine\<lparr>enabledFilters := [3, 5]\<rparr>)) 5
   \<and> \<not> isFilterEnabled (setFilterEnabled 7 True (sample_engine\<lparr>enabledFilters := [3, 5]\<rparr>)) 4
   \<and> \<not> isFilterEnabled (setFilterEnabled 7 False (sample_engine\<lparr>enabledFilters := [3, 5]\<rparr>)) 7"
  using setFilterEnabled_idempotent [of 7 "sample_engine\<lparr>enabledFilters := [3, 5]\<rparr>" 7]
    setFilterEnabled_idempotent [of 7 "sample_engine\<lparr>enabledFilters := [3, 5]\<rparr>" 5]
    setFilterEnabled_idempotent [of 7 "sample_engine\<lparr>enabledFilters := [3, 5]\<rparr>" 4]
    setFilterEnabled_idempotent [of 3 "sample_engine\<lparr>enabledFilters := [3, 5]\<rparr>" 3]
  by (simp add: setFilterEnabled_def)

section \<open>Properties of the entity ids\<close>

lemma encodedId_low: "ucast (encodedId i r) = r"
  unfolding encodedId_def
  by (rule bit_word_eqI) (auto simp add: bit_simps)

lemma encodedId_high:
  assumes "unat i + 1 < 2 ^ 32"
  shows "drop_bit 32 (encodedId i r) = i + 1"
proof -
  have u: "unat (i + 1) = unat i + 1"
    using assms by (simp add: unat_word_ariths)
  have "i + 1 < 2 ^ 32"
    using assms u by (simp add: word_less_nat_alt)
  then have t: "take_bit 32 (i + 1) = i + 1"
    by (simp add: less_mask_eq take_bit_eq_mask)
  have "drop_bit 32 (encodedId i r) = take_bit 32 (i + 1)"
    unfolding encodedId_def
    by (rule bit_word_eqI) (auto simp add: bit_simps dest: bit_imp_le_length)
  with t show ?thesis by simp
qed

lemma directId_high: "drop_bit 32 (directId r) = 0"
  unfolding directId_def
  by (rule bit_word_eqI) (auto simp add: bit_simps dest: bit_imp_le_length)

lemma index_succ_nonzero:
  assumes "unat (i :: 64 word) + 1 < 2 ^ 32"
  shows "i + 1 \<noteq> 0"
proof
  assume "i + 1 = 0"
  then have "unat (i + 1) = 0" by simp
  moreover have "unat (i + 1) = unat i + 1"
    using assms by (simp add: unat_word_ariths)
  ultimately show False by simp
qed

text \<open>
  C6, as amended. For a row id \<open>r\<close> and a 1-based index \<open>k = i + 1\<close> with
  \<open>1 \<le> k < 2 ^ 32\<close>, the low 32 bits of the packed id are \<open>r\<close> and the high 32 bits are
  \<open>k\<close>; two such pairs with the same packed id are equal; and the packed id is not the
  id of a directly stored row.
\<close>

theorem encodedId_round_trip_bounded:
  assumes "unat i + 1 < 2 ^ 32" and "unat i' + 1 < 2 ^ 32"
  shows "ucast (encodedId i r) = r
    \<and> drop_bit 32 (encodedId i r) = i + 1
    \<and> (encodedId i r = encodedId i' r' \<longrightarrow> i = i' \<and> r = r')
    \<and> encodedId i r \<noteq> directId r'"
proof -
  have inj: "encodedId i r = encodedId i' r' \<longrightarrow> i = i' \<and> r = r'"
  proof
    assume eq: "encodedId i r = encodedId i' r'"
    then have "drop_bit 32 (encodedId i r) = drop_bit 32 (encodedId i' r')" by simp
    then have "i + 1 = i' + 1"
      using assms by (simp add: encodedId_high)
    then have "i = i'" by simp
    moreover have "(ucast (encodedId i r) :: 32 word) = ucast (encodedId i' r')"
      using eq by simp
    then have "r = r'" by (simp add: encodedId_low)
    ultimately show "i = i' \<and> r = r'" by simp
  qed
  have "encodedId i r \<noteq> directId r'"
  proof
    assume "encodedId i r = directId r'"
    then have "drop_bit 32 (encodedId i r) = drop_bit 32 (directId r')" by simp
    then have "i + 1 = 0"
      using assms(1) by (simp add: encodedId_high directId_high)
    with index_succ_nonzero [OF assms(1)] show False by simp
  qed
  with inj encodedId_low [of i r] encodedId_high [OF assms(1), of r] show ?thesis by simp
qed

theorem encodedId_round_trip_bounded_witness:
  "unat (2 :: 64 word) + 1 < 2 ^ 32 \<and> unat (0 :: 64 word) + 1 < 2 ^ 32
   \<and> encodedId 2 7 = 12884901895
   \<and> (ucast (encodedId 2 7) :: 32 word) = 7
   \<and> drop_bit 32 (encodedId 2 7) = 3
   \<and> encodedId 2 7 \<noteq> encodedId 0 7
   \<and> encodedId 2 7 \<noteq> directId 7"
  using encodedId_round_trip_bounded [of 2 0 7 7]
  by (simp add: encodedId_def)

text \<open>
  C6 as stated, for every index, fails: with \<open>i + 1 = 2 ^ 32\<close> the shift drops the
  index, the packed id of row 5 is the direct id of row 5, and the index
  \<open>2 ^ 32 + 1\<close> gives the same packed id as the index 1.
\<close>

theorem encodedId_overflow_counterexample:
  "encodedId (2 ^ 32 - 1) 5 = directId 5
   \<and> drop_bit 32 (encodedId (2 ^ 32 - 1) 5) \<noteq> (2 ^ 32 - 1) + 1
   \<and> encodedId (2 ^ 32) 5 = encodedId 0 5"
  by (simp add: encodedId_def directId_def)

section \<open>Properties of import\<close>

lemma split_commas_nonempty: "split_commas s \<noteq> []"
  by (induction s) (auto split: list.splits)

lemma cast_at_Inr_iff:
  "(\<exists>v. cast_at lc xs i = Inr v) \<longleftrightarrow> i < length xs \<and> lc (xs ! i) \<noteq> None"
  by (auto simp: cast_at_def at_index_def split: option.splits)

lemma cast_at_Inr:
  "i < length xs \<Longrightarrow> lc (xs ! i) = Some v \<Longrightarrow> cast_at lc xs i = Inr v"
  by (simp add: cast_at_def at_index_def)

lemma cast_at_cases:
  obtains (ok) v where "i < length xs" "lc (xs ! i) = Some v" "cast_at lc xs i = Inr v"
  | (err) e where "\<not> (i < length xs \<and> lc (xs ! i) \<noteq> None)" "cast_at lc xs i = Inl e"
  by (cases "i < length xs"; cases "lc (xs ! i)") (auto simp: cast_at_def at_index_def)

lemma readable_tuple_nth:
  "readable_tuple lc n v \<longleftrightarrow>
     (\<forall>i<n. i < length (split_commas v) \<and> lc (split_commas v ! i) \<noteq> None)"
proof (cases "n \<le> length (split_commas v)")
  case True
  then show ?thesis
    by (auto simp: readable_tuple_def list_all_length)
next
  case False
  then have "length (split_commas v) < n" by simp
  then show ?thesis
    by (auto simp: readable_tuple_def)
qed

lemma well_formed_readable: "well_formed_tuple lc n v \<Longrightarrow> readable_tuple lc n v"
  by (simp add: well_formed_tuple_def readable_tuple_def)

lemma getOrigin_readable:
  assumes "select_metadata s ''origin'' = v # vs" and "readable_tuple lc 2 v"
  shows "getOrigin lc s =
    Inr (the (lc (split_commas v ! 0)), the (lc (split_commas v ! 1)))"
proof -
  from assms(2) have "\<forall>i<2. i < length (split_commas v) \<and> lc (split_commas v ! i) \<noteq> None"
    by (simp add: readable_tuple_nth)
  then have c: "\<And>i. i < 2 \<Longrightarrow>
      cast_at lc (split_commas v) i = Inr (the (lc (split_commas v ! i)))"
    by (auto intro!: cast_at_Inr)
  show ?thesis
    using assms(1) by (simp add: getOrigin_def Let_def c)
qed

lemma getOrigin_unreadable:
  assumes "select_metadata s ''origin'' = v # vs" and "\<not> readable_tuple lc 2 v"
  shows "\<exists>e. getOrigin lc s = Inl e"
proof -
  from assms(2) obtain i where i: "i < 2"
      "\<not> (i < length (split_commas v) \<and> lc (split_commas v ! i) \<noteq> None)"
    by (auto simp: readable_tuple_nth)
  then have "i = 0 \<or> i = 1" by auto
  with i(2) have bad: "(\<exists>e. cast_at lc (split_commas v) 0 = Inl e)
      \<or> (\<exists>e. cast_at lc (split_commas v) 1 = Inl e)"
    by (metis cast_at_cases sum.distinct(1) cast_at_Inr_iff)
  show ?thesis
    using assms(1) bad
    by (auto simp: getOrigin_def Let_def split: sum.splits)
qed

lemma getOrigin_absent:
  "select_metadata s ''origin'' = [] \<Longrightarrow> getOrigin lc s = Inr (Finite 0, Finite 0)"
  by (simp add: getOrigin_def)

lemma getBounds_readable:
  assumes "select_metadata s ''bounds'' = v # vs" and "readable_tuple lc 4 v"
  shows "getBounds lc s =
    Inr (Some \<lparr>bmin = (the (lc (split_commas v ! 0)), the (lc (split_commas v ! 1))),
               bmax = (the (lc (split_commas v ! 2)), the (lc (split_commas v ! 3)))\<rparr>)"
proof -
  from assms(2) have "\<forall>i<4. i < length (split_commas v) \<and> lc (split_commas v ! i) \<noteq> None"
    by (simp add: readable_tuple_nth)
  then have c: "\<And>i. i < 4 \<Longrightarrow>
      cast_at lc (split_commas v) i = Inr (the (lc (split_commas v ! i)))"
    by (auto intro!: cast_at_Inr)
  show ?thesis
    using assms(1) by (simp add: getBounds_def Let_def c)
qed

lemma getBounds_unreadable:
  assumes "select_metadata s ''bounds'' = v # vs" and "\<not> readable_tuple lc 4 v"
  shows "\<exists>e. getBounds lc s = Inl e"
proof -
  from assms(2) obtain i where i: "i < 4"
      "\<not> (i < length (split_commas v) \<and> lc (split_commas v ! i) \<noteq> None)"
    by (auto simp: readable_tuple_nth)
  then have "i = 0 \<or> i = 1 \<or> i = 2 \<or> i = 3" by auto
  with i(2) have bad: "(\<exists>e. cast_at lc (split_commas v) 0 = Inl e)
      \<or> (\<exists>e. cast_at lc (split_commas v) 1 = Inl e)
      \<or> (\<exists>e. cast_at lc (split_commas v) 2 = Inl e)
      \<or> (\<exists>e. cast_at lc (split_commas v) 3 = Inl e)"
    by (metis cast_at_cases sum.distinct(1) cast_at_Inr_iff)
  show ?thesis
    using assms(1) bad
    by (auto simp: getBounds_def Let_def split: sum.splits)
qed

lemma getBounds_absent:
  "select_metadata s ''bounds'' = [] \<Longrightarrow> getBounds lc s = Inr None"
  by (simp add: getBounds_def)


lemma digit_value_digit_char: "d < 10 \<Longrightarrow> digit_value (digit_char d) = d"
  by (simp add: digit_value_def digit_char_def)

lemma from_decimal_snoc:
  "from_decimal (cs @ [c]) = 10 * from_decimal cs + digit_value c"
  by (simp add: from_decimal_def)

lemma from_decimal_to_decimal: "from_decimal (to_decimal n) = n"
proof (induction n rule: to_decimal.induct)
  case (1 n)
  show ?case
  proof (cases "n < 10")
    case True
    then show ?thesis
      by (subst to_decimal.simps) (simp add: from_decimal_def digit_value_digit_char)
  next
    case False
    with 1 have "from_decimal (to_decimal (n div 10)) = n div 10" by simp
    with False show ?thesis
      by (subst to_decimal.simps) (simp add: from_decimal_snoc digit_value_digit_char)
  qed
qed

lemma to_decimal_inj: "to_decimal m = to_decimal n \<Longrightarrow> m = n"
  by (metis from_decimal_to_decimal)

lemma sequential_ids_distinct:
  assumes "sequential_ids dbs"
  shows "distinct (map db_id dbs)"
proof -
  have "inj_on (\<lambda>i. ''db'' @ to_decimal i) (set [0..<length dbs])"
    by (auto intro!: inj_onI dest: to_decimal_inj)
  then have "distinct (map (\<lambda>i. ''db'' @ to_decimal i) [0..<length dbs])"
    by (simp add: distinct_map)
  with assms show ?thesis by (simp add: sequential_ids_def)
qed

lemma sequential_ids_append:
  assumes "sequential_ids dbs" and "db_id d = ''db'' @ to_decimal (length dbs)"
  shows "sequential_ids (dbs @ [d])"
  using assms by (simp add: sequential_ids_def)

lemma sequential_ids_Nil: "sequential_ids []"
  by (simp add: sequential_ids_def)

text \<open>
  C9. When each of the two metadata values is absent or well formed, \<open>import\<close> returns
  \<open>true\<close> and appends exactly one database, with the id \<open>db\<close> followed by the number of
  databases registered before, the store, and the bounds and origin read from the
  metadata: no bounds if there is no \<open>bounds\<close> row (no query then skips the database), the
  origin \<open>(0, 0)\<close> if there is no \<open>origin\<close> row. If the ids registered before were \<open>db0\<close>, \<open>db1\<close>, ... then so are the
  ids afterwards, and they are pairwise different.
\<close>

theorem import_well_formed:
  assumes "\<forall>v vs. select_metadata s ''bounds'' = v # vs \<longrightarrow> well_formed_tuple lc 4 v"
    and "\<forall>v vs. select_metadata s ''origin'' = v # vs \<longrightarrow> well_formed_tuple lc 2 v"
  shows "\<exists>b orig.
      import lc s g =
        (Inr True,
         g\<lparr>databases := databases g @
            [\<lparr>db_id = ''db'' @ to_decimal (length (databases g)), db_store = s,
              db_bounds = b, db_origin = orig\<rparr>]\<rparr>)
      \<and> getBounds lc s = Inr b \<and> getOrigin lc s = Inr orig
      \<and> (select_metadata s ''bounds'' = [] \<longrightarrow>
            b = None
            \<and> \<not> out_of_bounds env
                  \<lparr>db_id = ''db'' @ to_decimal (length (databases g)), db_store = s,
                    db_bounds = b, db_origin = orig\<rparr> lng lat r)
      \<and> (select_metadata s ''origin'' = [] \<longrightarrow> orig = (Finite 0, Finite 0))
      \<and> (sequential_ids (databases g) \<longrightarrow>
            sequential_ids (databases (snd (import lc s g)))
            \<and> distinct (map db_id (databases (snd (import lc s g)))))"
proof -
  obtain b where b: "getBounds lc s = Inr b"
      "select_metadata s ''bounds'' = [] \<longrightarrow> b = None"
  proof (cases "select_metadata s ''bounds''")
    case Nil
    then show ?thesis using that by (simp add: getBounds_absent)
  next
    case (Cons v vs)
    with assms(1) have "readable_tuple lc 4 v"
      by (simp add: well_formed_readable)
    with Cons show ?thesis using that by (simp add: getBounds_readable)
  qed
  obtain orig where orig: "getOrigin lc s = Inr orig"
      "select_metadata s ''origin'' = [] \<longrightarrow> orig = (Finite 0, Finite 0)"
  proof (cases "select_metadata s ''origin''")
    case Nil
    then show ?thesis using that by (simp add: getOrigin_absent)
  next
    case (Cons v vs)
    with assms(2) have "readable_tuple lc 2 v"
      by (simp add: well_formed_readable)
    with Cons show ?thesis using that by (simp add: getOrigin_readable)
  qed
  let ?d = "\<lparr>db_id = ''db'' @ to_decimal (length (databases g)), db_store = s,
              db_bounds = b, db_origin = orig\<rparr>"
  have imp: "import lc s g = (Inr True, g\<lparr>databases := databases g @ [?d]\<rparr>)"
    using b(1) orig(1) by (simp add: import_def)
  have seq: "sequential_ids (databases g) \<longrightarrow>
      sequential_ids (databases (snd (import lc s g)))
      \<and> distinct (map db_id (databases (snd (import lc s g))))"
  proof
    assume "sequential_ids (databases g)"
    then have "sequential_ids (databases g @ [?d])"
      by (rule sequential_ids_append) simp
    then show "sequential_ids (databases (snd (import lc s g)))
      \<and> distinct (map db_id (databases (snd (import lc s g))))"
      using sequential_ids_distinct [of "databases g @ [?d]"] by (simp add: imp)
  qed
  have unbounded: "select_metadata s ''bounds'' = [] \<longrightarrow>
      b = None \<and> \<not> out_of_bounds env ?d lng lat r"
    using b(2) by (simp add: out_of_bounds_def)
  from imp b(1) orig seq unbounded show ?thesis by blast
qed

theorem import_well_formed_witness:
  "select_metadata (sample_store [(''origin'', ''3,4'')]) ''bounds'' = []
   \<and> select_metadata (sample_store [(''origin'', ''3,4'')]) ''origin'' = [''3,4'']
   \<and> well_formed_tuple integer_literal 2 ''3,4''
   \<and> import integer_literal (sample_store [(''origin'', ''3,4'')]) sample_engine =
       (Inr True,
        sample_engine\<lparr>databases :=
          [\<lparr>db_id = ''db0'', db_store = sample_store [(''origin'', ''3,4'')],
            db_bounds = None, db_origin = (Finite 3, Finite 4)\<rparr>]\<rparr>)"
proof -
  let ?s = "sample_store [(''origin'', ''3,4'')]"
  have nb: "select_metadata ?s ''bounds'' = []"
    by (simp add: select_metadata_def sample_store_def)
  have o: "select_metadata ?s ''origin'' = [''3,4'']"
    by (simp add: select_metadata_def sample_store_def)
  have wf: "well_formed_tuple integer_literal 2 ''3,4''"
    by (simp add: well_formed_tuple_def integer_literal_def is_digit_def)
  have h1: "\<forall>v vs. select_metadata ?s ''bounds'' = v # vs \<longrightarrow> well_formed_tuple integer_literal 4 v"
    by (simp add: nb)
  have h2: "\<forall>v vs. select_metadata ?s ''origin'' = v # vs \<longrightarrow> well_formed_tuple integer_literal 2 v"
    using wf by (simp add: o)
  have go: "getOrigin integer_literal ?s = Inr (Finite 3, Finite 4)"
    by (simp add: getOrigin_def o cast_at_def at_index_def integer_literal_def is_digit_def
        from_decimal_def digit_value_def)
  have d0: "to_decimal 0 = ''0''"
    by code_simp
  from import_well_formed [OF h1 h2, of sample_engine] nb o wf go d0
  show ?thesis
    by (auto simp: sample_engine_def)
qed


text \<open>
  C8, as amended. If the first \<open>bounds\<close> value has fewer than 4 fields or one of its
  first 4 fields is not numeric, or the first \<open>origin\<close> value has fewer than 2 fields or
  one of its first 2 fields is not numeric, then \<open>import\<close> raises an exception and the
  engine, with its list of databases, is as before.
\<close>

theorem import_unreadable_metadata:
  assumes "(\<exists>v vs. select_metadata s ''bounds'' = v # vs \<and> \<not> readable_tuple lc 4 v)
    \<or> (\<exists>v vs. select_metadata s ''origin'' = v # vs \<and> \<not> readable_tuple lc 2 v)"
  shows "\<exists>e. import lc s g = (Inl e, g)"
proof -
  from assms have "(\<exists>e. getBounds lc s = Inl e) \<or> (\<exists>e. getOrigin lc s = Inl e)"
    using getBounds_unreadable getOrigin_unreadable by blast
  then show ?thesis
    by (auto simp: import_def split: sum.splits)
qed

theorem import_unreadable_metadata_witness:
  "select_metadata (sample_store [(''origin'', ''1,x'')]) ''origin'' = [''1,x'']
   \<and> \<not> readable_tuple integer_literal 2 ''1,x''
   \<and> select_metadata (sample_store [(''bounds'', ''1,2,3'')]) ''bounds'' = [''1,2,3'']
   \<and> \<not> readable_tuple integer_literal 4 ''1,2,3''
   \<and> import integer_literal (sample_store [(''origin'', ''1,x'')]) sample_engine
       = (Inl bad_lexical_cast, sample_engine)
   \<and> import integer_literal (sample_store [(''bounds'', ''1,2,3'')]) sample_engine
       = (Inl out_of_range, sample_engine)"
proof -
  let ?s = "sample_store [(''origin'', ''1,x'')]"
  let ?t = "sample_store [(''bounds'', ''1,2,3'')]"
  have o: "select_metadata ?s ''origin'' = [''1,x'']"
    by (simp add: select_metadata_def sample_store_def)
  have b: "select_metadata ?t ''bounds'' = [''1,2,3'']"
    by (simp add: select_metadata_def sample_store_def)
  have no: "\<not> readable_tuple integer_literal 2 ''1,x''"
    by (simp add: readable_tuple_def integer_literal_def is_digit_def)
  have nb: "\<not> readable_tuple integer_literal 4 ''1,2,3''"
    by (simp add: readable_tuple_def)
  have h: "(\<exists>v vs. select_metadata ?s ''bounds'' = v # vs \<and> \<not> readable_tuple integer_literal 4 v)
    \<or> (\<exists>v vs. select_metadata ?s ''origin'' = v # vs \<and> \<not> readable_tuple integer_literal 2 v)"
    using o no by simp
  have h': "(\<exists>v vs. select_metadata ?t ''bounds'' = v # vs \<and> \<not> readable_tuple integer_literal 4 v)
    \<or> (\<exists>v vs. select_metadata ?t ''origin'' = v # vs \<and> \<not> readable_tuple integer_literal 2 v)"
    using b nb by simp
  have e1: "fst (import integer_literal ?s sample_engine) = Inl bad_lexical_cast"
    by (simp add: import_def getBounds_def getOrigin_def select_metadata_def sample_store_def
        cast_at_def at_index_def integer_literal_def is_digit_def)
  have e2: "fst (import integer_literal ?t sample_engine) = Inl out_of_range"
    by (simp add: import_def getBounds_def getOrigin_def select_metadata_def sample_store_def
        cast_at_def at_index_def integer_literal_def is_digit_def)
  from import_unreadable_metadata [OF h, of sample_engine]
    import_unreadable_metadata [OF h', of sample_engine] e1 e2 o no b nb
  show ?thesis by auto
qed

text \<open>
  C8 as stated fails for a value with too many fields: the \<open>origin\<close> value \<open>1,2,3\<close> has
  three fields instead of two, and the \<open>origin\<close> value \<open>1,2,x\<close> has a third field that
  is not numeric; \<open>import\<close> reads the first two fields, returns \<open>true\<close> and registers
  the database.
\<close>

theorem import_surplus_fields_counterexample:
  "\<not> well_formed_tuple integer_literal 2 ''1,2,3''
   \<and> import integer_literal (sample_store [(''origin'', ''1,2,3'')]) sample_engine =
       (Inr True,
        sample_engine\<lparr>databases :=
          [\<lparr>db_id = ''db0'', db_store = sample_store [(''origin'', ''1,2,3'')],
            db_bounds = None, db_origin = (Finite 1, Finite 2)\<rparr>]\<rparr>)
   \<and> \<not> well_formed_tuple integer_literal 2 ''1,2,x''
   \<and> import integer_literal (sample_store [(''origin'', ''1,2,x'')]) sample_engine =
       (Inr True,
        sample_engine\<lparr>databases :=
          [\<lparr>db_id = ''db0'', db_store = sample_store [(''origin'', ''1,2,x'')],
            db_bounds = None, db_origin = (Finite 1, Finite 2)\<rparr>]\<rparr>)"
proof -
  have d0: "to_decimal 0 = ''0''"
    by code_simp
  have "\<not> well_formed_tuple integer_literal 2 ''1,2,3''"
    and "\<not> well_formed_tuple integer_literal 2 ''1,2,x''"
    by (simp_all add: well_formed_tuple_def)
  moreover have "import integer_literal (sample_store [(''origin'', ''1,2,3'')]) sample_engine =
       (Inr True,
        sample_engine\<lparr>databases :=
          [\<lparr>db_id = ''db0'', db_store = sample_store [(''origin'', ''1,2,3'')],
            db_bounds = None, db_origin = (Finite 1, Finite 2)\<rparr>]\<rparr>)"
    by (simp add: import_def getBounds_def getOrigin_def select_metadata_def sample_store_def
        cast_at_def at_index_def integer_literal_def is_digit_def from_decimal_def
        digit_value_def d0 sample_engine_def)
  moreover have "import integer_literal (sample_store [(''origin'', ''1,2,x'')]) sample_engine =
       (Inr True,
        sample_engine\<lparr>databases :=
          [\<lparr>db_id = ''db0'', db_store = sample_store [(''origin'', ''1,2,x'')],
            db_bounds = None, db_origin = (Finite 1, Finite 2)\<rparr>]\<rparr>)"
    by (simp add: import_def getBounds_def getOrigin_def select_metadata_def sample_store_def
        cast_at_def at_index_def integer_literal_def is_digit_def from_decimal_def
        digit_value_def d0 sample_engine_def)
  ultimately show ?thesis by blast
qed

section \<open>Properties of rounding\<close>

lemma round_half_even_of_int [simp]: "round_half_even (of_int n) = n"
  by (simp add: round_half_even_def)

lemma round_half_even_bounds:
  "\<lfloor>y\<rfloor> \<le> round_half_even y" "round_half_even y \<le> \<lfloor>y\<rfloor> + 1"
  by (simp_all add: round_half_even_def)

lemma round_half_even_mono:
  assumes "y \<le> z"
  shows "round_half_even y \<le> round_half_even z"
proof (cases "\<lfloor>y\<rfloor> = \<lfloor>z\<rfloor>")
  case True
  with assms have "y - of_int \<lfloor>y\<rfloor> \<le> z - of_int \<lfloor>z\<rfloor>" by simp
  with True show ?thesis
    by (auto simp: round_half_even_def)
next
  case False
  with assms have "\<lfloor>y\<rfloor> < \<lfloor>z\<rfloor>"
    by (simp add: floor_mono order.strict_iff_order)
  then have "round_half_even y \<le> \<lfloor>z\<rfloor>"
    using round_half_even_bounds(2) [of y] by linarith
  then show ?thesis
    using round_half_even_bounds(1) [of z] by linarith
qed

lemma round_half_even_ge_int: "of_int n \<le> y \<Longrightarrow> n \<le> round_half_even y"
  using round_half_even_mono [of "of_int n" y] by simp

lemma round_half_even_le_int: "y \<le> of_int n \<Longrightarrow> round_half_even y \<le> n"
  using round_half_even_mono [of y "of_int n"] by simp

lemma round_half_even_minus: "round_half_even (- y) = - round_half_even y"
proof (cases "y = of_int \<lfloor>y\<rfloor>")
  case True
  then obtain n where "y = of_int n" ..
  then have "- y = of_int (- n)" by simp
  then show ?thesis
    using \<open>y = of_int n\<close> by (simp only: round_half_even_of_int)
next
  case False
  then have fl: "\<lfloor>- y\<rfloor> = - \<lfloor>y\<rfloor> - 1"
    by (metis ceiling_def ceiling_altdef diff_minus_eq_add minus_diff_eq uminus_add_conv_diff minus_minus add.commute)
  show ?thesis
    unfolding round_half_even_def fl
    by (auto simp: algebra_simps)
qed


lemma binade_bounds:
  assumes "0 < x"
  shows "2 powi \<lfloor>log 2 x\<rfloor> \<le> x" and "x < 2 powi (\<lfloor>log 2 x\<rfloor> + 1)"
proof -
  have e: "(2::real) powr real_of_int k = 2 powi k" for k
    by (rule powr_real_of_int') simp_all
  have "(1::real) < 2" by simp
  from floor_log_eq_powr_iff [OF assms this, of "\<lfloor>log 2 x\<rfloor>"]
  have "2 powr real_of_int \<lfloor>log 2 x\<rfloor> \<le> x \<and> x < 2 powr real_of_int (\<lfloor>log 2 x\<rfloor> + 1)"
    by blast
  then show "2 powi \<lfloor>log 2 x\<rfloor> \<le> x" and "x < 2 powi (\<lfloor>log 2 x\<rfloor> + 1)"
    unfolding e by blast+
qed

lemma binade_mono:
  assumes "0 < x" and "x \<le> y"
  shows "\<lfloor>log 2 x\<rfloor> \<le> \<lfloor>log 2 y\<rfloor>"
  using assms by (intro floor_mono) simp

lemma two_powi_int: "real_of_int (2 ^ p) = 2 powi int p"
  by (simp add: power_int_of_nat)

lemma two_powi_add: "(2::real) powi a * 2 powi b = 2 powi (a + b)"
  by (simp add: power_int_add)

lemma two_powi_diff: "(2::real) powi a / 2 powi b = 2 powi (a - b)"
  by (simp add: power_int_diff)

lemma round_real_pos:
  assumes "0 < x"
  shows "round_real (p, emax) x =
    of_int (round_half_even (x / 2 powi (max \<lfloor>log 2 x\<rfloor> (1 - emax) - (int p - 1))))
      * 2 powi (max \<lfloor>log 2 x\<rfloor> (1 - emax) - (int p - 1))"
  using assms by (simp add: round_real_def ulp_exponent_def)

lemma round_real_upper:
  assumes "0 < x" and "e = max \<lfloor>log 2 x\<rfloor> (1 - emax)"
  shows "round_real (p, emax) x \<le> 2 powi (e + 1)"
proof -
  let ?q = "e - (int p - 1)"
  have "x < 2 powi (\<lfloor>log 2 x\<rfloor> + 1)"
    using assms(1) by (rule binade_bounds)
  also have "\<dots> \<le> 2 powi (e + 1)"
    using assms(2) by (intro power_int_increasing) auto
  finally have "x / 2 powi ?q \<le> 2 powi (e + 1) / 2 powi ?q"
    by (simp add: divide_right_mono)
  also have "\<dots> = 2 powi int p"
    by (simp only: two_powi_diff) simp
  also have "\<dots> = real_of_int (2 ^ p)"
    by (simp only: two_powi_int)
  finally have "round_half_even (x / 2 powi ?q) \<le> 2 ^ p"
    by (rule round_half_even_le_int)
  then have "real_of_int (round_half_even (x / 2 powi ?q)) \<le> of_int (2 ^ p)"
    by (simp only: of_int_le_iff)
  then have "real_of_int (round_half_even (x / 2 powi ?q)) * 2 powi ?q \<le> of_int (2 ^ p) * 2 powi ?q"
    by (intro mult_right_mono) simp_all
  also have "real_of_int (2 ^ p) * 2 powi ?q = 2 powi (int p + ?q)"
    by (simp only: two_powi_int two_powi_add)
  also have "int p + ?q = e + 1"
    by simp
  finally show ?thesis
    using assms by (simp only: round_real_pos)
qed

lemma round_real_lower:
  assumes "0 < x" and "e = max \<lfloor>log 2 x\<rfloor> (1 - emax)" and "e = \<lfloor>log 2 x\<rfloor>" and "0 < p"
  shows "2 powi e \<le> round_real (p, emax) x"
proof -
  let ?q = "e - (int p - 1)"
  let ?n = "round_half_even (x / 2 powi ?q)"
  have q1: "e - ?q = int (p - 1)" and q2: "int (p - 1) + ?q = e"
    using assms(4) by (simp_all add: of_nat_diff)
  have "(2::real) powi e \<le> x"
    using binade_bounds(1) [OF assms(1)] assms(3) by simp
  then have "2 powi e / 2 powi ?q \<le> x / 2 powi ?q"
    by (simp add: divide_right_mono)
  also have "(2::real) powi e / 2 powi ?q = real_of_int (2 ^ (p - 1))"
    using q1 by (simp only: two_powi_diff two_powi_int)
  finally have "2 ^ (p - 1) \<le> ?n"
    by (rule round_half_even_ge_int)
  then have "real_of_int (2 ^ (p - 1)) \<le> real_of_int ?n"
    by (simp only: of_int_le_iff)
  then have "real_of_int (2 ^ (p - 1)) * 2 powi ?q \<le> real_of_int ?n * 2 powi ?q"
    by (intro mult_right_mono) simp_all
  also have "real_of_int (2 ^ (p - 1)) * 2 powi ?q = (2::real) powi e"
    using q2 by (simp only: two_powi_int two_powi_add)
  finally have "2 powi e \<le> real_of_int ?n * 2 powi ?q" .
  moreover have "round_real (p, emax) x = real_of_int ?n * 2 powi ?q"
    using assms(2) by (simp only: round_real_pos [OF assms(1)])
  ultimately show ?thesis
    by simp
qed

lemma round_real_pos_mono:
  assumes "0 < x" and "x \<le> y" and "0 < p"
  shows "round_real (p, emax) x \<le> round_real (p, emax) y"
proof -
  let ?ex = "max \<lfloor>log 2 x\<rfloor> (1 - emax)"
  let ?ey = "max \<lfloor>log 2 y\<rfloor> (1 - emax)"
  from assms have y: "0 < y" by simp
  have le: "?ex \<le> ?ey"
    using binade_mono [OF assms(1,2)] by simp
  show ?thesis
  proof (cases "?ex = ?ey")
    case True
    let ?q = "?ex - (int p - 1)"
    have "x / 2 powi ?q \<le> y / 2 powi ?q"
      using assms(2) by (simp add: divide_right_mono)
    then have "round_half_even (x / 2 powi ?q) \<le> round_half_even (y / 2 powi ?q)"
      by (rule round_half_even_mono)
    then have "real_of_int (round_half_even (x / 2 powi ?q)) \<le> of_int (round_half_even (y / 2 powi ?q))"
      by (simp only: of_int_le_iff)
    then have "real_of_int (round_half_even (x / 2 powi ?q)) * 2 powi ?q
        \<le> real_of_int (round_half_even (y / 2 powi ?q)) * 2 powi ?q"
      by (intro mult_right_mono) simp_all
    then show ?thesis
      using True by (simp only: round_real_pos [OF assms(1)] round_real_pos [OF y])
  next
    case False
    with le have lt: "?ex + 1 \<le> ?ey" by linarith
    then have ey: "?ey = \<lfloor>log 2 y\<rfloor>" by linarith
    have "round_real (p, emax) x \<le> 2 powi (?ex + 1)"
      using assms(1) by (rule round_real_upper) simp
    also have "\<dots> \<le> 2 powi ?ey"
      using lt by (intro power_int_increasing) simp_all
    also have "\<dots> \<le> round_real (p, emax) y"
      using y _ ey assms(3) by (rule round_real_lower) simp
    finally show ?thesis .
  qed
qed


lemma ulp_exponent_minus [simp]: "ulp_exponent fmt (- x) = ulp_exponent fmt x"
  by (simp add: ulp_exponent_def)

lemma round_real_minus: "round_real fmt (- x) = - round_real fmt x"
  by (simp add: round_real_def round_half_even_minus)

lemma round_real_zero [simp]: "round_real fmt 0 = 0"
  by (simp add: round_real_def)

lemma round_real_nonneg:
  assumes "0 \<le> x"
  shows "0 \<le> round_real fmt x"
proof (cases "x = 0")
  case True
  then show ?thesis by simp
next
  case False
  have "0 \<le> x / 2 powi ulp_exponent fmt x"
    using assms by simp
  then have "0 \<le> round_half_even (x / 2 powi ulp_exponent fmt x)"
    using round_half_even_ge_int [of 0] by simp
  then show ?thesis
    using False by (simp add: round_real_def)
qed

lemma round_real_nonpos:
  assumes "x \<le> 0"
  shows "round_real fmt x \<le> 0"
  using round_real_nonneg [of "- x" fmt] assms by (simp add: round_real_minus)

lemma round_real_mono:
  assumes "x \<le> y" and "0 < fst fmt"
  shows "round_real fmt x \<le> round_real fmt y"
proof -
  obtain p emax where fmt: "fmt = (p, emax)" by (cases fmt)
  with assms(2) have p: "0 < p" by simp
  consider "0 < x" | "x \<le> 0" "0 \<le> y" | "y < 0" by linarith
  then show ?thesis
  proof cases
    case 1
    then show ?thesis
      unfolding fmt using assms(1) p by (rule round_real_pos_mono)
  next
    case 2
    then show ?thesis
      using round_real_nonpos [of x fmt] round_real_nonneg [of y fmt] by linarith
  next
    case 3
    then have "0 < - y" and "- y \<le> - x" using assms(1) by simp_all
    then have "round_real (p, emax) (- y) \<le> round_real (p, emax) (- x)"
      using p by (rule round_real_pos_mono)
    then show ?thesis
      unfolding fmt by (simp add: round_real_minus)
  qed
qed

lemma round_real_exact:
  assumes "x / 2 powi ulp_exponent fmt x = of_int n"
  shows "round_real fmt x = x"
proof -
  have "of_int n * 2 powi ulp_exponent fmt x = x"
    using assms by (simp add: field_simps)
  then show ?thesis
    using assms by (simp add: round_real_def)
qed

lemma two_powi_not_le_zero: "\<not> (2::real) powi n \<le> 0"
  by (simp add: not_le)

lemma fp_round_not_NaN [simp]: "fp_round fmt x \<noteq> NaN"
  by (simp add: fp_round_def)

lemma fp_round_mono:
  assumes "x \<le> y" and "0 < fst fmt"
  shows "fp_less_eq (fp_round fmt x) (fp_round fmt y)"
proof -
  have m: "round_real fmt x \<le> round_real fmt y"
    using assms by (rule round_real_mono)
  have sx: "0 \<le> x \<Longrightarrow> 0 \<le> round_real fmt x" "x \<le> 0 \<Longrightarrow> round_real fmt x \<le> 0"
    by (simp_all add: round_real_nonneg round_real_nonpos)
  have sy: "0 \<le> y \<Longrightarrow> 0 \<le> round_real fmt y" "y \<le> 0 \<Longrightarrow> round_real fmt y \<le> 0"
    by (simp_all add: round_real_nonneg round_real_nonpos)
  show ?thesis
    using m sx sy assms(1)
    unfolding fp_round_def fp_less_eq_def
    by (auto simp: abs_if not_le not_less two_powi_not_le_zero split: if_splits)
qed

lemma fp_round_nonneg:
  assumes "0 \<le> x"
  shows "fp_less_eq (Finite 0) (fp_round fmt x)"
  using round_real_nonneg [OF assms, of fmt] assms
  by (auto simp: fp_round_def fp_less_eq_def two_powi_not_le_zero)

lemma fp_round_nonpos:
  assumes "x \<le> 0"
  shows "fp_less_eq (fp_round fmt x) (Finite 0)"
  using round_real_nonpos [OF assms, of fmt] assms
  by (auto simp: fp_round_def fp_less_eq_def two_powi_not_le_zero)

lemma fp_round_zero [simp]: "fp_round fmt 0 = Finite 0"
  by (simp add: fp_round_def two_powi_not_le_zero)

lemma ulp_exponent_binary32_one: "ulp_exponent binary32 1 = - 23"
  by (simp add: ulp_exponent_def binary32_def)

lemma round_real_binary32_one: "round_real binary32 1 = 1"
proof (rule round_real_exact)
  show "1 / 2 powi ulp_exponent binary32 1 = real_of_int (2 ^ 23)"
    by (simp add: ulp_exponent_binary32_one power_int_minus)
qed

lemma fp_round_binary32_one: "fp_round binary32 1 = Finite 1"
proof -
  have "\<not> (2::real) powi 128 \<le> 1"
    by simp
  then show ?thesis
    unfolding fp_round_def round_real_binary32_one by (simp add: binary32_def)
qed

lemma binary32_precision [simp]: "0 < fst binary32"
  by (simp add: binary32_def)

text \<open>
  Rounding the image of a finite operand under a monotone function that keeps zero,
  and leaving the other operands as they are, is monotone.
\<close>

lemma fp_round_image_mono:
  assumes "fp_less_eq a b" and "0 < fst fmt" and "\<And>u v. u \<le> v \<Longrightarrow> f u \<le> f v" and "f 0 = 0"
  shows "fp_less_eq (case a of Finite v \<Rightarrow> fp_round fmt (f v) | _ \<Rightarrow> a)
                    (case b of Finite v \<Rightarrow> fp_round fmt (f v) | _ \<Rightarrow> b)"
proof (cases a; cases b)
  fix x y
  assume ab: "a = Finite x" "b = Finite y"
  with assms(1) have "f x \<le> f y"
    by (simp add: fp_less_eq_def assms(3))
  then have "fp_less_eq (fp_round fmt (f x)) (fp_round fmt (f y))"
    using assms(2) by (rule fp_round_mono)
  with ab show ?thesis
    by simp
next
  fix x
  assume ab: "a = Finite x" "b = NegZero"
  with assms(1) have "f x \<le> 0"
    using assms(3) [of x 0] by (simp add: fp_less_eq_def assms(4))
  then have "fp_less_eq (fp_round fmt (f x)) (Finite 0)"
    by (rule fp_round_nonpos)
  with ab show ?thesis
    by (simp add: fp_less_eq_def)
next
  fix y
  assume ab: "a = NegZero" "b = Finite y"
  with assms(1) have "0 \<le> f y"
    using assms(3) [of 0 y] by (simp add: fp_less_eq_def assms(4))
  then have "fp_less_eq (Finite 0) (fp_round fmt (f y))"
    by (rule fp_round_nonneg)
  with ab show ?thesis
    by (simp add: fp_less_eq_def)
qed (use assms(1) in \<open>simp_all add: fp_less_eq_def\<close>)

lemma fp_convert_mono:
  assumes "fp_less_eq a b" and "0 < fst fmt"
  shows "fp_less_eq (fp_convert fmt a) (fp_convert fmt b)"
  unfolding fp_convert_def
  using assms by (rule fp_round_image_mono [where f = "\<lambda>v. v"]) simp_all

lemma fp_div_positive:
  assumes "0 < x"
  shows "fp_div fmt a (Finite x) = (case a of Finite v \<Rightarrow> fp_round fmt (v / x) | _ \<Rightarrow> a)"
  using assms by (cases a) (auto simp: fp_div_def fp_zero_def fp_inf_def)

lemma fp_div_mono:
  assumes "fp_less_eq a b" and "0 < fst fmt" and "0 < x"
  shows "fp_less_eq (fp_div fmt a (Finite x)) (fp_div fmt b (Finite x))"
  unfolding fp_div_positive [OF assms(3)]
  using assms(1,2)
  by (rule fp_round_image_mono [where f = "\<lambda>v. v / x"])
     (use assms(3) in \<open>simp_all add: divide_right_mono\<close>)

lemma fp_sub_from_one:
  "fp_sub fmt (Finite 1) q =
     (case q of Finite v \<Rightarrow> fp_round fmt (1 - v) | NegZero \<Rightarrow> fp_round fmt 1
      | PosInf \<Rightarrow> NegInf | NegInf \<Rightarrow> PosInf | NaN \<Rightarrow> NaN)"
  by (cases q) (auto simp: fp_sub_def fp_add_def)

lemma fp_sub_from_one_antimono:
  assumes "fp_less_eq a b" and "0 < fst fmt"
  shows "fp_less_eq (fp_sub fmt (Finite 1) b) (fp_sub fmt (Finite 1) a)"
proof -
  have r: "u \<le> v \<Longrightarrow> fp_less_eq (fp_round fmt (1 - v)) (fp_round fmt (1 - u))" for u v
    using assms(2) by (intro fp_round_mono) simp_all
  have nn [simp]: "fp_less_eq c NaN = False" "fp_less_eq NaN c = False" for c
    by (simp_all add: fp_less_eq_def)
  have inf [simp]: "fp_less_eq NegInf (fp_round fmt z)" "fp_less_eq (fp_round fmt z) PosInf" for z
    by (simp_all add: fp_less_eq_def)
  show ?thesis
  proof (cases a; cases b)
    fix x y
    assume "a = Finite x" "b = Finite y"
    with assms(1) show ?thesis
      using r [of x y] by (simp add: fp_sub_from_one) (simp add: fp_less_eq_def)
  next
    fix x
    assume "a = Finite x" "b = NegZero"
    with assms(1) show ?thesis
      using r [of x 0] by (simp add: fp_sub_from_one) (simp add: fp_less_eq_def)
  next
    fix y
    assume "a = NegZero" "b = Finite y"
    with assms(1) show ?thesis
      using r [of 0 y] by (simp add: fp_sub_from_one) (simp add: fp_less_eq_def)
  next
    assume "a = NegZero" "b = NegZero"
    then show ?thesis
      using r [of 0 0] by (simp add: fp_sub_from_one)
  qed (use assms(1) in \<open>simp_all add: fp_sub_from_one\<close>, simp_all add: fp_less_eq_def)
qed

section \<open>Properties of the rank\<close>

lemma fp_less_eq_not_less: "fp_less_eq a b \<Longrightarrow> \<not> fp_less b a"
  by (auto simp: fp_less_eq_def fp_less_def)

lemma fp_less_eq_trans: "fp_less_eq a b \<Longrightarrow> fp_less_eq b c \<Longrightarrow> fp_less_eq a c"
  by (cases a; cases b; cases c) (auto simp: fp_less_eq_def)

lemma fp_less_positive_cases:
  assumes "fp_less (Finite 0) r"
  obtains x where "r = Finite x" "0 < x" | "r = PosInf"
  using assms by (cases r) (auto simp: fp_less_def)

lemma fp_nonneg_cases:
  assumes "fp_less_eq (Finite 0) d"
  obtains x where "d = Finite x" "0 \<le> x" | "d = NegZero" | "d = PosInf"
  using assms by (cases d) (auto simp: fp_less_eq_def)

lemma rank_mono_finite:
  assumes "fp_less_eq d1 d2" and "0 < x"
  shows "fp_less_eq (rank (Finite x) d2) (rank (Finite x) d1)"
  unfolding rank_def
  using assms
  by (intro fp_sub_from_one_antimono fp_div_mono fp_convert_mono) simp_all

lemma rank_at_zero:
  assumes "0 < x"
  shows "rank (Finite x) (Finite 0) = Finite 1"
  using assms
  by (simp add: rank_def fp_convert_def fp_div_positive fp_sub_from_one fp_round_binary32_one)

lemma rank_infinite_radius:
  assumes "fp_less_eq (Finite 0) d"
  shows "rank PosInf d = (if fp_convert binary32 d = PosInf then NaN else Finite 1)"
proof -
  have nn: "fp_less_eq (Finite 0) (fp_convert binary32 d)"
    using fp_convert_mono [OF assms, of binary32] by (simp add: fp_convert_def)
  then show ?thesis
    by (rule fp_nonneg_cases)
      (auto simp: rank_def fp_div_def fp_zero_def fp_sub_from_one fp_round_binary32_one)
qed

lemma rank_at_radius:
  assumes "0 < x"
  shows "rank (Finite x) (Finite x) = Finite 0 \<or> fp_convert binary32 (Finite x) \<noteq> Finite x"
  using assms
  by (auto simp: rank_def fp_div_positive fp_sub_from_one fp_round_binary32_one)

text \<open>The three properties of the rank for a positive radius.\<close>

lemma rank_at_most_one:
  assumes "fp_less (Finite 0) r" and "fp_less_eq (Finite 0) d" and "fp_less (Finite 0) (rank r d)"
  shows "fp_less_eq (rank r d) (Finite 1)"
  using assms(1)
proof (cases rule: fp_less_positive_cases)
  case (1 x)
  then show ?thesis
    using rank_mono_finite [OF assms(2), of x] by (simp add: rank_at_zero)
next
  case 2
  then show ?thesis
    using assms(3) by (simp add: rank_infinite_radius [OF assms(2)] fp_less_def fp_less_eq_def split: if_splits)
qed

lemma rank_antimono:
  assumes "fp_less (Finite 0) r" and "fp_less_eq (Finite 0) d1" and "fp_less_eq d1 d2"
    and "fp_less (Finite 0) (rank r d2)"
  shows "fp_less_eq (rank r d2) (rank r d1)"
  using assms(1)
proof (cases rule: fp_less_positive_cases)
  case (1 x)
  then show ?thesis
    using rank_mono_finite [OF assms(3), of x] by simp
next
  case 2
  have d2: "fp_less_eq (Finite 0) d2"
    using assms(2,3) by (rule fp_less_eq_trans)
  from assms(4) have c2: "fp_convert binary32 d2 \<noteq> PosInf"
    by (simp add: 2 rank_infinite_radius [OF d2] fp_less_def split: if_splits)
  have "fp_less_eq (fp_convert binary32 d1) (fp_convert binary32 d2)"
    using assms(3) by (rule fp_convert_mono) simp
  with c2 have c1: "fp_convert binary32 d1 \<noteq> PosInf"
    by (auto simp: fp_less_eq_def)
  show ?thesis
    by (simp add: 2 rank_infinite_radius [OF d2] rank_infinite_radius [OF assms(2)] c1 c2
        fp_less_eq_def)
qed

lemma rank_beyond_radius:
  assumes "fp_less (Finite 0) r" and "fp_convert binary32 r = r" and "fp_less_eq r d"
  shows "\<not> fp_less (Finite 0) (rank r d)"
  using assms(1)
proof (cases rule: fp_less_positive_cases)
  case (1 x)
  have "rank (Finite x) (Finite x) = Finite 0"
    using rank_at_radius [OF 1(2)] assms(2) 1(1) by simp
  moreover have "fp_less_eq (rank (Finite x) d) (rank (Finite x) (Finite x))"
    using assms(3) 1 by (intro rank_mono_finite) simp_all
  ultimately show ?thesis
    using 1(1) by (simp add: fp_less_eq_not_less)
next
  case 2
  with assms(3) have d: "d = PosInf"
    by (cases d) (auto simp: fp_less_eq_def)
  show ?thesis
    by (simp add: 2 d rank_def fp_convert_def fp_div_def fp_sub_from_one fp_less_def)
qed


lemma binade_eq:
  assumes "2 powi k \<le> \<bar>x\<bar>" and "\<bar>x\<bar> < 2 powi (k + 1)"
  shows "\<lfloor>log 2 \<bar>x\<bar>\<rfloor> = k"
proof -
  have e: "(2::real) powr real_of_int j = 2 powi j" for j
    by (rule powr_real_of_int') simp_all
  have "0 < \<bar>x\<bar>"
    using assms(1) zero_less_power_int [of "2::real" k] by linarith
  moreover have "(1::real) < 2" by simp
  ultimately have "(\<lfloor>log 2 \<bar>x\<bar>\<rfloor> = k) =
      (2 powr real_of_int k \<le> \<bar>x\<bar> \<and> \<bar>x\<bar> < 2 powr real_of_int (k + 1))"
    by (rule floor_log_eq_powr_iff)
  with assms show ?thesis
    unfolding e by blast
qed

lemma round_real_eval:
  assumes "2 powi k \<le> \<bar>x\<bar>" and "\<bar>x\<bar> < 2 powi (k + 1)"
  shows "round_real (p, emax) x =
    of_int (round_half_even (x / 2 powi (max k (1 - emax) - (int p - 1))))
      * 2 powi (max k (1 - emax) - (int p - 1))"
proof -
  have "x \<noteq> 0"
    using assms(1) two_powi_not_le_zero [of k] by auto
  then show ?thesis
    by (simp add: round_real_def ulp_exponent_def binade_eq [OF assms])
qed


lemma fp_round_exact:
  assumes "2 powi k \<le> \<bar>x\<bar>" and "\<bar>x\<bar> < 2 powi (k + 1)"
    and "x / 2 powi (max k (1 - emax) - (int p - 1)) \<in> \<int>"
    and "\<bar>x\<bar> < 2 powi (emax + 1)"
  shows "fp_round (p, emax) x = Finite x"
proof -
  from assms(3) obtain n where n: "x / 2 powi (max k (1 - emax) - (int p - 1)) = of_int n"
    by (auto elim: Ints_cases)
  have "x \<noteq> 0"
    using assms(1) two_powi_not_le_zero [of k] by auto
  then have u: "ulp_exponent (p, emax) x = max k (1 - emax) - (int p - 1)"
    by (simp add: ulp_exponent_def binade_eq [OF assms(1,2)])
  have "round_real (p, emax) x = x"
    by (rule round_real_exact [where n = n]) (simp add: u n)
  with assms(4) \<open>x \<noteq> 0\<close> show ?thesis
    by (simp add: fp_round_def)
qed

lemma rank_nonpositive_radius:
  assumes "fp_less_eq (Finite 0) d" and "fp_less_eq d r" and "fp_less_eq r (Finite 0)"
  shows "rank r d = NaN"
proof -
  from assms have "(d = Finite 0 \<or> d = NegZero) \<and> (r = Finite 0 \<or> r = NegZero)"
    by (cases d; cases r) (auto simp: fp_less_eq_def)
  then show ?thesis
    by (auto simp: rank_def fp_convert_def fp_div_def fp_sub_from_one)
qed

lemma fp_round_binary32_half: "fp_round binary32 (1 / 2) = Finite (1 / 2)"
proof -
  have r: "round_real binary32 (1 / 2) = 1 / 2"
    unfolding binary32_def
    by (subst round_real_eval [where k = "- 1"]) (simp_all add: round_half_even_def power_int_minus)
  show ?thesis
    unfolding fp_round_def r by (simp add: binary32_def)
qed

lemma fp_round_binary32_two: "fp_round binary32 2 = Finite 2"
proof -
  have r: "round_real binary32 2 = 2"
    unfolding binary32_def
    by (subst round_real_eval [where k = 1]) (simp_all add: round_half_even_def power_int_minus)
  show ?thesis
    unfolding fp_round_def r by (simp add: binary32_def)
qed

lemma fp_round_binary32_near_one: "fp_round binary32 (1 + 1 / 2 ^ 30) = Finite 1"
proof -
  have r: "round_real binary32 (1 + 1 / 2 ^ 30) = 1"
    unfolding binary32_def
    by (subst round_real_eval [where k = 0]) (simp_all add: round_half_even_def power_int_minus)
  show ?thesis
    unfolding fp_round_def r by (simp add: binary32_def)
qed

lemma fp_round_binary64_near_one: "fp_round binary64 (1 + 1 / 2 ^ 30) = Finite (1 + 1 / 2 ^ 30)"
proof -
  have r: "round_real binary64 (1 + 1 / 2 ^ 30) = 1 + 1 / 2 ^ 30"
    unfolding binary64_def
    by (subst round_real_eval [where k = 0]) (simp_all add: round_half_even_def power_int_minus)
  show ?thesis
    unfolding fp_round_def r by (simp add: binary64_def)
qed

lemma rank_two_one: "rank (Finite 2) (Finite 1) = Finite (1 / 2)"
  by (simp add: rank_def fp_convert_def fp_round_binary32_one fp_div_positive
      fp_round_binary32_half fp_sub_from_one)

lemma rank_two_near_one: "rank (Finite 2) (Finite (1 + 1 / 2 ^ 30)) = Finite (1 / 2)"
  by (simp add: rank_def fp_convert_def fp_round_binary32_near_one [simplified] fp_div_positive
      fp_round_binary32_half fp_sub_from_one)

lemma rank_two_two: "rank (Finite 2) (Finite 2) = Finite 0"
  by (simp add: rank_def fp_convert_def fp_round_binary32_two fp_div_positive
      fp_round_binary32_one fp_sub_from_one)

text \<open>The rank for a radius that is infinite, zero or negative.\<close>

lemma rank_infinite_radius_mono:
  assumes "fp_less_eq (Finite 0) d1" and "fp_less_eq d1 d2" and "fp_convert binary32 d2 \<noteq> PosInf"
  shows "fp_less_eq (rank PosInf d2) (rank PosInf d1)"
proof -
  have d2: "fp_less_eq (Finite 0) d2"
    using assms(1,2) by (rule fp_less_eq_trans)
  have "fp_less_eq (fp_convert binary32 d1) (fp_convert binary32 d2)"
    using assms(2) by (rule fp_convert_mono) simp
  with assms(3) have c1: "fp_convert binary32 d1 \<noteq> PosInf"
    by (auto simp: fp_less_eq_def)
  show ?thesis
    by (simp add: rank_infinite_radius [OF d2] rank_infinite_radius [OF assms(1)] c1 assms(3)
        fp_less_eq_def)
qed




text \<open>Values of the rounding and of the rank that the concrete instances need.\<close>

lemma fp_round_binary64_one: "fp_round binary64 1 = Finite 1"
  unfolding binary64_def
  by (rule fp_round_exact [where k = 0]) (simp_all add: power_int_minus)

lemma rank_two_zero: "rank (Finite 2) (Finite 0) = Finite 1"
  by (rule rank_at_zero) simp


section \<open>Properties of the queries\<close>

lemma settings_radius: "settings g' = settings g \<Longrightarrow> radius g' = radius g"
  by (simp add: settings_def)

lemma settings_findGeometryInfo:
  "settings (snd (findGeometryInfo env database quadIndices converter g)) = settings g"
  by (simp add: findGeometryInfo_def settings_def Let_def split: prod.splits option.splits)

lemma settings_run_search:
  assumes "\<And>quadIndices converter g. settings (snd (lookup quadIndices converter g)) = settings g"
  shows "settings (snd (run_search lookup search g)) = settings g"
proof (induction search arbitrary: g)
  case (Found results)
  then show ?case by simp
next
  case (Lookup quadIndices converter continue)
  obtain geomInfos g' where l: "lookup quadIndices converter g = (geomInfos, g')"
    by (cases "lookup quadIndices converter g")
  then have "settings g' = settings g"
    using assms [of quadIndices converter g] by simp
  moreover have "settings (snd (run_search lookup (continue geomInfos) g')) = settings g'"
    by (rule Lookup.IH) simp
  ultimately show ?case
    by (simp add: l)
qed

lemma run_search_outcomes: "fst (run_search lookup search g) \<in> outcomes search"
proof (induction search arbitrary: g)
  case (Found results)
  then show ?case by simp
next
  case (Lookup quadIndices converter continue)
  obtain geomInfos g' where l: "lookup quadIndices converter g = (geomInfos, g')"
    by (cases "lookup quadIndices converter g")
  have "fst (run_search lookup (continue geomInfos) g') \<in> outcomes (continue geomInfos)"
    by (rule Lookup.IH) simp
  then show ?case
    by (auto simp: l)
qed

lemma settings_resolve_address:
  "settings (snd (resolve_address env database entityId g)) = settings g"
  by (simp add: resolve_address_def settings_def Let_def split: prod.splits option.splits)

lemma rank_results_Cons:
  obtains (kept) address g' addresses g'' where
      "fp_less (Finite 0) (rank (radius g) (snd result))"
      "resolve_address env database (fst result) g = (address, g')"
      "rank_results env database results g' = (addresses, g'')"
      "rank_results env database (result # results) g =
         ((address, rank (radius g) (snd result)) # addresses, g'')"
      "settings g' = settings g"
  | (dropped) "\<not> fp_less (Finite 0) (rank (radius g) (snd result))"
      "rank_results env database (result # results) g = rank_results env database results g"
proof (cases "fp_less (Finite 0) (rank (radius g) (snd result))")
  case True
  obtain address g' where r: "resolve_address env database (fst result) g = (address, g')"
    by (cases "resolve_address env database (fst result) g")
  obtain addresses g'' where t: "rank_results env database results g' = (addresses, g'')"
    by (cases "rank_results env database results g'")
  have "settings g' = settings g"
    using settings_resolve_address [of env database "fst result" g] by (simp add: r)
  moreover have "rank_results env database (result # results) g =
         ((address, rank (radius g) (snd result)) # addresses, g'')"
    using True by (simp add: r t)
  ultimately show ?thesis
    using True r t kept by blast
next
  case False
  then show ?thesis
    using dropped by simp
qed

lemma settings_rank_results:
  "settings (snd (rank_results env database results g)) = settings g"
proof (induction results arbitrary: g)
  case Nil
  then show ?case by simp
next
  case (Cons result results)
  show ?case
  proof (cases rule: rank_results_Cons [of g result env database results])
    case (kept address g' addresses g'')
    from Cons.IH [of g'] kept(3,5) have "settings g'' = settings g" by simp
    with kept(4) show ?thesis by simp
  next
    case dropped
    with Cons.IH [of g] show ?thesis by simp
  qed
qed

lemma rank_results_ranks:
  "map snd (fst (rank_results env database results g)) =
     filter (fp_less (Finite 0)) (map (\<lambda>result. rank (radius g) (snd result)) results)"
proof (induction results arbitrary: g)
  case Nil
  then show ?case by simp
next
  case (Cons result results)
  show ?case
  proof (cases rule: rank_results_Cons [of g result env database results])
    case (kept address g' addresses g'')
    from kept(5) have "radius g' = radius g" by (rule settings_radius)
    with Cons.IH [of g'] kept(3) have "map snd addresses =
        filter (fp_less (Finite 0)) (map (\<lambda>result. rank (radius g) (snd result)) results)"
      by simp
    with kept(1,4) show ?thesis by simp
  next
    case dropped
    with Cons.IH [of g] show ?thesis by simp
  qed
qed

text \<open>One step of the loop over the databases, for a database that is not skipped.\<close>

lemma query_databases_step:
  assumes "\<not> out_of_bounds env database lng lat (radius g)"
  obtains results g1 found g2 addresses g3 where
    "run_search (findGeometryInfo env database) (findGeometries env lng lat (radius g))
       (g\<lparr>previousEntityQueryCounter := entityQueryCounter g\<rparr>) = (results, g1)"
    "rank_results env database results g1 = (found, g2)"
    "query_databases env lng lat dbs g2 = (addresses, g3)"
    "query_databases env lng lat (database # dbs) g = (found @ addresses, g3)"
    "settings g1 = settings g" "settings g2 = settings g"
    "results \<in> outcomes (findGeometries env lng lat (radius g))"
proof -
  let ?start = "g\<lparr>previousEntityQueryCounter := entityQueryCounter g\<rparr>"
  let ?search = "findGeometries env lng lat (radius g)"
  obtain results g1 where s: "run_search (findGeometryInfo env database) ?search ?start = (results, g1)"
    by (cases "run_search (findGeometryInfo env database) ?search ?start")
  obtain found g2 where r: "rank_results env database results g1 = (found, g2)"
    by (cases "rank_results env database results g1")
  obtain addresses g3 where q: "query_databases env lng lat dbs g2 = (addresses, g3)"
    by (cases "query_databases env lng lat dbs g2")
  have "settings g1 = settings ?start"
    using settings_run_search [of "findGeometryInfo env database" ?search ?start, OF settings_findGeometryInfo]
    by (simp add: s)
  then have g1: "settings g1 = settings g"
    by (simp add: settings_def)
  have g2: "settings g2 = settings g"
    using settings_rank_results [of env database results g1] g1 by (simp add: r)
  have o: "results \<in> outcomes ?search"
    using run_search_outcomes [of "findGeometryInfo env database" ?search ?start] by (simp add: s)
  have "query_databases env lng lat (database # dbs) g = (found @ addresses, g3)"
    using assms by (simp add: s r q)
  with s r q g1 g2 o show ?thesis
    using that by blast
qed

lemma settings_query_databases:
  "settings (snd (query_databases env lng lat dbs g)) = settings g"
proof (induction dbs arbitrary: g)
  case Nil
  then show ?case by simp
next
  case (Cons database dbs)
  show ?case
  proof (cases "out_of_bounds env database lng lat (radius g)")
    case True
    then show ?thesis using Cons.IH [of g] by simp
  next
    case False
    then obtain g2 g3 addresses found where
      "query_databases env lng lat dbs g2 = (addresses, g3)"
      "query_databases env lng lat (database # dbs) g = (found @ addresses, g3)"
      "settings g2 = settings g"
      by (rule query_databases_step [where dbs = dbs])
    then show ?thesis using Cons.IH [of g2] by simp
  qed
qed

text \<open>Every pair returned comes from a result that a search reported, and has a positive rank.\<close>

lemma query_databases_ranks:
  assumes "p \<in> set (fst (query_databases env lng lat dbs g))"
  shows "\<exists>results \<in> outcomes (findGeometries env lng lat (radius g)). \<exists>result \<in> set results.
           snd p = rank (radius g) (snd result) \<and> fp_less (Finite 0) (snd p)"
  using assms
proof (induction dbs arbitrary: g)
  case Nil
  then show ?case by simp
next
  case (Cons database dbs)
  show ?case
  proof (cases "out_of_bounds env database lng lat (radius g)")
    case True
    with Cons.prems have "p \<in> set (fst (query_databases env lng lat dbs g))" by simp
    then show ?thesis by (rule Cons.IH)
  next
    case False
    then obtain results g1 found g2 addresses g3 where step:
      "rank_results env database results g1 = (found, g2)"
      "query_databases env lng lat dbs g2 = (addresses, g3)"
      "query_databases env lng lat (database # dbs) g = (found @ addresses, g3)"
      "settings g1 = settings g" "settings g2 = settings g"
      "results \<in> outcomes (findGeometries env lng lat (radius g))"
      by (rule query_databases_step [where dbs = dbs])
    have r: "radius g1 = radius g" "radius g2 = radius g"
      using step(4,5) by (simp_all add: settings_def)
    from Cons.prems step(3) consider "p \<in> set found" | "p \<in> set addresses" by auto
    then show ?thesis
    proof cases
      case 1
      then have "snd p \<in> set (map snd (fst (rank_results env database results g1)))"
        by (simp add: step(1))
      then have "snd p \<in> set (filter (fp_less (Finite 0))
          (map (\<lambda>result. rank (radius g) (snd result)) results))"
        by (simp only: rank_results_ranks r)
      then have "\<exists>result \<in> set results.
          snd p = rank (radius g) (snd result) \<and> fp_less (Finite 0) (snd p)"
        by auto
      with step(6) show ?thesis by blast
    next
      case 2
      then have "p \<in> set (fst (query_databases env lng lat dbs g2))"
        by (simp add: step(2))
      then have "\<exists>results \<in> outcomes (findGeometries env lng lat (radius g2)).
          \<exists>result \<in> set results.
            snd p = rank (radius g2) (snd result) \<and> fp_less (Finite 0) (snd p)"
        by (rule Cons.IH)
      then show ?thesis
        by (simp only: r)
    qed
  qed
qed

section \<open>The caches\<close>

subsection \<open>Cache keys\<close>

lemma digit_char_not_underscore: "d < 10 \<Longrightarrow> digit_char d \<noteq> CHR ''_''"
proof
  assume d: "d < 10" and "digit_char d = CHR ''_''"
  then have "(of_char (digit_char d) :: nat) = of_char CHR ''_''" by simp
  with d show False by (simp add: digit_char_def)
qed

lemma to_decimal_no_underscore: "CHR ''_'' \<notin> set (to_decimal n)"
proof (induction n rule: to_decimal.induct)
  case (1 n)
  show ?case
  proof (cases "n < 10")
    case True
    then show ?thesis
      by (subst to_decimal.simps) (simp add: digit_char_not_underscore [symmetric])
  next
    case False
    with 1 have "CHR ''_'' \<notin> set (to_decimal (n div 10))" by simp
    moreover have "digit_char (n mod 10) \<noteq> CHR ''_''"
      by (rule digit_char_not_underscore) simp
    ultimately show ?thesis
      using False by (subst to_decimal.simps) auto
  qed
qed

lemma key_split:
  assumes "CHR ''_'' \<notin> set a" and "CHR ''_'' \<notin> set a'" and "a @ ''_'' @ b = a' @ ''_'' @ b'"
  shows "a = a' \<and> b = b'"
  using assms
proof (induction a arbitrary: a')
  case Nil
  then show ?case by (cases a') auto
next
  case (Cons x a)
  then show ?case by (cases a') auto
qed

lemma sequential_ids_member:
  assumes "sequential_ids dbs" and "database \<in> set dbs"
  shows "\<exists>i. db_id database = ''db'' @ to_decimal i"
proof -
  from assms(2) have "db_id database \<in> set (map db_id dbs)" by simp
  with assms(1) have "db_id database \<in> set (map (\<lambda>i. ''db'' @ to_decimal i) [0..<length dbs])"
    by (simp only: sequential_ids_def)
  then show ?thesis by auto
qed

lemma sequential_ids_no_underscore:
  assumes "sequential_ids dbs" and "database \<in> set dbs"
  shows "CHR ''_'' \<notin> set (db_id database)"
  using sequential_ids_member [OF assms] to_decimal_no_underscore by auto

lemma sequential_ids_inj:
  assumes "sequential_ids dbs" and "database \<in> set dbs" and "database' \<in> set dbs"
    and "db_id database = db_id database'"
  shows "database = database'"
proof -
  from assms(1) have "distinct (map db_id dbs)" by (rule sequential_ids_distinct)
  then have "inj_on db_id (set dbs)" by (simp add: distinct_map)
  with assms(2-4) show ?thesis by (auto dest: inj_onD)
qed

lemma cache_key_inj:
  assumes "sequential_ids dbs" and "database \<in> set dbs" and "database' \<in> set dbs"
    and "db_id database @ ''_'' @ b = db_id database' @ ''_'' @ b'"
  shows "database = database' \<and> b = b'"
proof -
  have "db_id database = db_id database' \<and> b = b'"
    using assms(4) sequential_ids_no_underscore [OF assms(1,2)]
      sequential_ids_no_underscore [OF assms(1,3)]
    by (intro key_split) simp_all
  with sequential_ids_inj [OF assms(1-3)] show ?thesis by simp
qed

subsection \<open>Reading and writing a cache\<close>

lemma drop_key_subset: "set (drop_key k kvs) \<subseteq> set kvs"
  by (auto simp: drop_key_def)

lemma cache_read_cases:
  obtains (hit) v c' where "cache_read c k = (Some v, c')" "(k, v) \<in> set (entries c)"
      "set (entries c') \<subseteq> set (entries c)" "capacity c' = capacity c"
  | (miss) "cache_read c k = (None, c)"
proof (cases "map_of (entries c) k")
  case None
  then show ?thesis using miss by (simp add: cache_read_def)
next
  case (Some v)
  then have in_c: "(k, v) \<in> set (entries c)" by (rule map_of_SomeD)
  let ?c' = "c\<lparr>entries := (k, v) # drop_key k (entries c)\<rparr>"
  have "cache_read c k = (Some v, ?c')"
    using Some by (simp add: cache_read_def)
  moreover have "set (entries ?c') \<subseteq> set (entries c)"
    using in_c drop_key_subset [of k "entries c"] by auto
  ultimately show ?thesis using in_c hit [of v ?c'] by simp
qed

lemma cache_put_entries: "set (entries (cache_put c k v)) \<subseteq> insert (k, v) (set (entries c))"
proof -
  have "set (take (capacity c) ((k, v) # drop_key k (entries c)))
      \<subseteq> set ((k, v) # drop_key k (entries c))"
    by (rule set_take_subset)
  then show ?thesis
    using drop_key_subset [of k "entries c"] by (auto simp: cache_put_def)
qed

subsection \<open>The address cache agrees with the stores\<close>

lemma addresses_sound_subset:
  assumes "addresses_sound env g" and "databases g' = databases g" and "language g' = language g"
    and "set (entries (addressCache g')) \<subseteq> set (entries (addressCache g))"
  shows "addresses_sound env g'"
  using assms unfolding addresses_sound_def address_cache_sound_def by auto

lemma addresses_sound_hit:
  assumes "addresses_sound env g" and "database \<in> set (databases g)"
    and "(db_id database @ ''_'' @ to_decimal (unat entityId), a) \<in> set (entries (addressCache g))"
  shows "a = stored_address env database (language g) entityId"
proof -
  from assms(1) have seq: "sequential_ids (databases g)" and "address_cache_sound env g"
    by (simp_all add: addresses_sound_def)
  with assms(3) obtain database' entityId' where e:
    "database' \<in> set (databases g)"
    "db_id database @ ''_'' @ to_decimal (unat entityId)
       = db_id database' @ ''_'' @ to_decimal (unat entityId')"
    "a = stored_address env database' (language g) entityId'"
    unfolding address_cache_sound_def by fastforce
  from cache_key_inj [OF seq assms(2) e(1) e(2)]
  have "database = database'" and "to_decimal (unat entityId) = to_decimal (unat entityId')"
    by simp_all
  then have "database = database'" and "entityId = entityId'"
    by (auto dest!: to_decimal_inj simp: word_unat_eq_iff)
  with e(3) show ?thesis by simp
qed

lemma addresses_sound_put:
  assumes "addresses_sound env g" and "database \<in> set (databases g)"
  shows "addresses_sound env
     (g\<lparr>addressCache := cache_put (addressCache g)
          (db_id database @ ''_'' @ to_decimal (unat entityId))
          (stored_address env database (language g) entityId)\<rparr>)"
proof -
  let ?key = "db_id database @ ''_'' @ to_decimal (unat entityId)"
  let ?a = "stored_address env database (language g) entityId"
  have "\<exists>database \<in> set (databases g). \<exists>entityId.
        fst entry = db_id database @ ''_'' @ to_decimal (unat entityId)
        \<and> snd entry = stored_address env database (language g) entityId"
    if "entry \<in> set (entries (cache_put (addressCache g) ?key ?a))" for entry
  proof -
    from that cache_put_entries [of "addressCache g" ?key ?a]
    consider "entry = (?key, ?a)" | "entry \<in> set (entries (addressCache g))" by blast
    then show ?thesis
    proof cases
      case 1
      with assms(2) show ?thesis by auto
    next
      case 2
      with assms(1) show ?thesis
        unfolding addresses_sound_def address_cache_sound_def by blast
    qed
  qed
  with assms(1) show ?thesis
    by (simp add: addresses_sound_def address_cache_sound_def)
qed

text \<open>
  \<open>resolve_address\<close> yields the address that the store holds for the entity, and
  changes the address cache only.
\<close>

lemma resolve_address_stored:
  assumes "addresses_sound env g" and "database \<in> set (databases g)"
  shows "fst (resolve_address env database entityId g) =
      stored_address env database (language g) entityId"
    and "addresses_sound env (snd (resolve_address env database entityId g))"
proof -
  let ?key = "db_id database @ ''_'' @ to_decimal (unat entityId)"
  let ?fresh = "stored_address env database (language g) entityId"
  let ?r = "resolve_address env database entityId g"
  have "fst ?r = ?fresh \<and> addresses_sound env (snd ?r)"
  proof (cases rule: cache_read_cases [of "addressCache g" ?key])
    case (hit a c')
    then have r: "?r = (a, g\<lparr>addressCache := c'\<rparr>)"
      by (simp add: resolve_address_def)
    have "a = ?fresh"
      using assms hit(2) by (rule addresses_sound_hit)
    moreover have "addresses_sound env (g\<lparr>addressCache := c'\<rparr>)"
      using assms(1) by (rule addresses_sound_subset) (simp_all add: hit(3))
    ultimately show ?thesis by (simp add: r)
  next
    case miss
    let ?g' = "g\<lparr>addressCache := cache_put (addressCache g) ?key ?fresh\<rparr>"
    have r: "?r = (?fresh, ?g')"
      using miss by (simp add: resolve_address_def stored_address_def Let_def)
    have "addresses_sound env ?g'"
      using assms by (rule addresses_sound_put)
    then show ?thesis by (simp add: r)
  qed
  then show "fst ?r = ?fresh" and "addresses_sound env (snd ?r)"
    by simp_all
qed

lemma resolve_address_frame:
  "\<exists>a. snd (resolve_address env database entityId g) = g\<lparr>addressCache := a\<rparr>"
proof -
  let ?key = "db_id database @ ''_'' @ to_decimal (unat entityId)"
  obtain v c where r: "cache_read (addressCache g) ?key = (v, c)"
    by (cases "cache_read (addressCache g) ?key")
  show ?thesis
  proof (cases v)
    case None
    with r show ?thesis
      by (simp add: resolve_address_def Let_def) (rule exI, rule refl)
  next
    case (Some address)
    with r show ?thesis
      by (simp add: resolve_address_def Let_def) (rule exI, rule refl)
  qed
qed

lemma rank_results_frame:
  "\<exists>a. snd (rank_results env database results g) = g\<lparr>addressCache := a\<rparr>"
proof (induction results arbitrary: g)
  case Nil
  show ?case by (rule exI [of _ "addressCache g"]) simp
next
  case (Cons result results)
  show ?case
  proof (cases rule: rank_results_Cons [of g result env database results])
    case (kept address g' addresses g'')
    from resolve_address_frame [of env database "fst result" g]
    obtain a1 where "g' = g\<lparr>addressCache := a1\<rparr>"
      unfolding kept(2) snd_conv by (rule exE)
    moreover from Cons.IH [of g'] obtain a2 where "g'' = g'\<lparr>addressCache := a2\<rparr>"
      unfolding kept(3) snd_conv by (rule exE)
    ultimately have "g'' = g\<lparr>addressCache := a2\<rparr>"
      by simp
    then show ?thesis
      unfolding kept(4) snd_conv by (rule exI)
  next
    case dropped
    with Cons.IH [of g] show ?thesis by simp
  qed
qed

lemma rank_results_stored:
  assumes "addresses_sound env g" and "database \<in> set (databases g)"
  shows "fst (rank_results env database results g) =
      uncached_ranked env database (language g) (radius g) results
    \<and> addresses_sound env (snd (rank_results env database results g))"
  using assms
proof (induction results arbitrary: g)
  case Nil
  then show ?case by (simp add: uncached_ranked_def)
next
  case (Cons result results)
  show ?case
  proof (cases rule: rank_results_Cons [of g result env database results])
    case (kept address g' addresses g'')
    from kept(5) have same: "databases g' = databases g" "language g' = language g"
        "radius g' = radius g"
      by (simp_all add: settings_def)
    have a: "address = stored_address env database (language g) (fst result)"
      using resolve_address_stored(1) [OF Cons.prems, of "fst result"] kept(2) by simp
    have "addresses_sound env g'"
      using resolve_address_stored(2) [OF Cons.prems, of "fst result"] kept(2) by simp
    moreover have "database \<in> set (databases g')"
      using Cons.prems(2) same by simp
    ultimately have "fst (rank_results env database results g') =
        uncached_ranked env database (language g') (radius g') results
      \<and> addresses_sound env (snd (rank_results env database results g'))"
      by (rule Cons.IH)
    with kept(1,3,4) a same show ?thesis
      by (simp add: uncached_ranked_def)
  next
    case dropped
    with Cons.IH [OF Cons.prems] show ?thesis
      by (simp add: uncached_ranked_def)
  qed
qed

text \<open>\<open>findGeometryInfo\<close> neither reads nor writes the address cache.\<close>

lemma findGeometryInfo_addressCache:
  "findGeometryInfo env database quadIndices converter (g\<lparr>addressCache := a\<rparr>) =
     (fst (findGeometryInfo env database quadIndices converter g),
      (snd (findGeometryInfo env database quadIndices converter g))\<lparr>addressCache := a\<rparr>)"
  by (simp add: findGeometryInfo_def Let_def split: prod.splits option.splits)

lemma run_search_addressCache:
  "run_search (findGeometryInfo env database) search (g\<lparr>addressCache := a\<rparr>) =
     (fst (run_search (findGeometryInfo env database) search g),
      (snd (run_search (findGeometryInfo env database) search g))\<lparr>addressCache := a\<rparr>)"
proof (induction search arbitrary: g)
  case (Found results)
  then show ?case by simp
next
  case (Lookup quadIndices converter continue)
  obtain geomInfos g' where l: "findGeometryInfo env database quadIndices converter g = (geomInfos, g')"
    by (cases "findGeometryInfo env database quadIndices converter g")
  have "run_search (findGeometryInfo env database) (continue geomInfos) (g'\<lparr>addressCache := a\<rparr>) =
     (fst (run_search (findGeometryInfo env database) (continue geomInfos) g'),
      (snd (run_search (findGeometryInfo env database) (continue geomInfos) g'))\<lparr>addressCache := a\<rparr>)"
    by (rule Lookup.IH) simp
  then show ?case
    by (simp add: findGeometryInfo_addressCache l)
qed

lemma run_search_unchanged:
  assumes "\<And>quadIndices converter g. f (snd (lookup quadIndices converter g)) = f g"
  shows "f (snd (run_search lookup search g)) = f g"
proof (induction search arbitrary: g)
  case (Found results)
  then show ?case by simp
next
  case (Lookup quadIndices converter continue)
  obtain geomInfos g' where l: "lookup quadIndices converter g = (geomInfos, g')"
    by (cases "lookup quadIndices converter g")
  then have "f g' = f g"
    using assms [of quadIndices converter g] by simp
  moreover have "f (snd (run_search lookup (continue geomInfos) g')) = f g'"
    by (rule Lookup.IH) simp
  ultimately show ?case
    by (simp add: l)
qed

lemma findGeometryInfo_address_cache:
  "addressCache (snd (findGeometryInfo env database quadIndices converter g)) = addressCache g"
  by (simp add: findGeometryInfo_def Let_def split: prod.splits option.splits)

lemma run_search_addresses_sound:
  assumes "addresses_sound env g"
  shows "addresses_sound env (snd (run_search (findGeometryInfo env database) search g))"
proof -
  let ?g' = "snd (run_search (findGeometryInfo env database) search g)"
  have "addressCache ?g' = addressCache g"
    by (rule run_search_unchanged [where f = addressCache]) (rule findGeometryInfo_address_cache)
  moreover have "settings ?g' = settings g"
    by (rule run_search_unchanged [where f = settings]) (rule settings_findGeometryInfo)
  ultimately show ?thesis
    by (intro addresses_sound_subset [OF assms]) (simp_all add: settings_def)
qed

subsection \<open>The results reported to a query\<close>

lemma reported_results_step:
  assumes "\<not> out_of_bounds env database lng lat (radius g)"
    and "run_search (findGeometryInfo env database) (findGeometries env lng lat (radius g))
       (g\<lparr>previousEntityQueryCounter := entityQueryCounter g\<rparr>) = (results, g1)"
    and "rank_results env database results g1 = (found, g2)"
  shows "reported_results env lng lat (database # dbs) g =
      (database, results) # reported_results env lng lat dbs g2"
  using assms by simp

lemma reported_results_outcomes:
  assumes "reported \<in> set (reported_results env lng lat dbs g)"
  shows "fst reported \<in> set dbs \<and> snd reported \<in> outcomes (findGeometries env lng lat (radius g))"
  using assms
proof (induction dbs arbitrary: g)
  case Nil
  then show ?case by simp
next
  case (Cons database dbs)
  show ?case
  proof (cases "out_of_bounds env database lng lat (radius g)")
    case True
    with Cons.prems have "reported \<in> set (reported_results env lng lat dbs g)" by simp
    then have "fst reported \<in> set dbs
        \<and> snd reported \<in> outcomes (findGeometries env lng lat (radius g))"
      by (rule Cons.IH)
    then show ?thesis by simp
  next
    case False
    then obtain results g1 found g2 where step:
      "run_search (findGeometryInfo env database) (findGeometries env lng lat (radius g))
         (g\<lparr>previousEntityQueryCounter := entityQueryCounter g\<rparr>) = (results, g1)"
      "rank_results env database results g1 = (found, g2)"
      "settings g2 = settings g"
      "results \<in> outcomes (findGeometries env lng lat (radius g))"
      by (rule query_databases_step [where dbs = dbs])
    have r: "radius g2 = radius g"
      using step(3) by (simp add: settings_def)
    from Cons.prems have "reported = (database, results)
        \<or> reported \<in> set (reported_results env lng lat dbs g2)"
      unfolding reported_results_step [OF False step(1,2)] by simp
    then show ?thesis
    proof
      assume "reported = (database, results)"
      with step(4) show ?thesis by simp
    next
      assume "reported \<in> set (reported_results env lng lat dbs g2)"
      then have "fst reported \<in> set dbs
          \<and> snd reported \<in> outcomes (findGeometries env lng lat (radius g2))"
        by (rule Cons.IH)
      then show ?thesis by (simp add: r)
    qed
  qed
qed


text \<open>
  With a sound address cache, the pairs returned are the stored addresses of the
  reported results that have a positive rank, with these ranks.
\<close>

lemma query_databases_reported:
  assumes "addresses_sound env g" and "set dbs \<subseteq> set (databases g)"
  shows "fst (query_databases env lng lat dbs g) =
      concat (map (\<lambda>reported.
          uncached_ranked env (fst reported) (language g) (radius g) (snd reported))
        (reported_results env lng lat dbs g))
    \<and> addresses_sound env (snd (query_databases env lng lat dbs g))"
  using assms
proof (induction dbs arbitrary: g)
  case Nil
  then show ?case by simp
next
  case (Cons database dbs)
  from Cons.prems(2) have db: "database \<in> set (databases g)" and dbs: "set dbs \<subseteq> set (databases g)"
    by simp_all
  show ?case
  proof (cases "out_of_bounds env database lng lat (radius g)")
    case True
    with Cons.IH [OF Cons.prems(1) dbs] show ?thesis by simp
  next
    case False
    let ?start = "g\<lparr>previousEntityQueryCounter := entityQueryCounter g\<rparr>"
    let ?search = "findGeometries env lng lat (radius g)"
    from False obtain results g1 found g2 addresses g3 where step:
      "run_search (findGeometryInfo env database) ?search ?start = (results, g1)"
      "rank_results env database results g1 = (found, g2)"
      "query_databases env lng lat dbs g2 = (addresses, g3)"
      "query_databases env lng lat (database # dbs) g = (found @ addresses, g3)"
      "settings g1 = settings g" "settings g2 = settings g"
      by (rule query_databases_step [where dbs = dbs])
    have same1: "databases g1 = databases g" "language g1 = language g" "radius g1 = radius g"
      and same2: "databases g2 = databases g" "language g2 = language g" "radius g2 = radius g"
      using step(5,6) by (simp_all add: settings_def)
    have "addresses_sound env ?start"
      by (intro addresses_sound_subset [OF Cons.prems(1)]) simp_all
    then have "addresses_sound env (snd (run_search (findGeometryInfo env database) ?search ?start))"
      by (rule run_search_addresses_sound)
    then have s1: "addresses_sound env g1"
      by (simp add: step(1))
    have "fst (rank_results env database results g1) =
        uncached_ranked env database (language g1) (radius g1) results
      \<and> addresses_sound env (snd (rank_results env database results g1))"
      using s1 by (rule rank_results_stored) (simp add: same1 db)
    then have found: "found = uncached_ranked env database (language g) (radius g) results"
      and s2: "addresses_sound env g2"
      by (simp_all add: step(2) same1)
    have "fst (query_databases env lng lat dbs g2) =
        concat (map (\<lambda>reported.
            uncached_ranked env (fst reported) (language g2) (radius g2) (snd reported))
          (reported_results env lng lat dbs g2))
      \<and> addresses_sound env (snd (query_databases env lng lat dbs g2))"
      using s2 by (rule Cons.IH) (simp add: same2 dbs)
    then have rest: "addresses =
        concat (map (\<lambda>reported.
            uncached_ranked env (fst reported) (language g) (radius g) (snd reported))
          (reported_results env lng lat dbs g2))"
      and s3: "addresses_sound env g3"
      by (simp_all add: step(3) same2)
    show ?thesis
      unfolding step(4) reported_results_step [OF False step(1,2)]
      by (simp add: s3 found rest)
  qed
qed

text \<open>The reported results do not depend on the address cache.\<close>

lemma reported_results_addressCache:
  "reported_results env lng lat dbs (g\<lparr>addressCache := a\<rparr>) = reported_results env lng lat dbs g"
proof (induction dbs arbitrary: g a)
  case Nil
  then show ?case by simp
next
  case (Cons database dbs)
  show ?case
  proof (cases "out_of_bounds env database lng lat (radius g)")
    case True
    then show ?thesis by (simp add: Cons.IH)
  next
    case False
    let ?start = "g\<lparr>previousEntityQueryCounter := entityQueryCounter g\<rparr>"
    let ?search = "findGeometries env lng lat (radius g)"
    obtain results g1 where s: "run_search (findGeometryInfo env database) ?search ?start = (results, g1)"
      by (cases "run_search (findGeometryInfo env database) ?search ?start")
    obtain found g2 where r: "rank_results env database results g1 = (found, g2)"
      by (cases "rank_results env database results g1")
    have "(g\<lparr>addressCache := a\<rparr>)\<lparr>previousEntityQueryCounter := entityQueryCounter (g\<lparr>addressCache := a\<rparr>)\<rparr>
        = ?start\<lparr>addressCache := a\<rparr>"
      by simp
    then have sa: "run_search (findGeometryInfo env database) ?search
        ((g\<lparr>addressCache := a\<rparr>)\<lparr>previousEntityQueryCounter := entityQueryCounter (g\<lparr>addressCache := a\<rparr>)\<rparr>)
        = (results, g1\<lparr>addressCache := a\<rparr>)"
      by (simp only: run_search_addressCache s fst_conv snd_conv)
    obtain founda g2a where ra: "rank_results env database results (g1\<lparr>addressCache := a\<rparr>) = (founda, g2a)"
      by (cases "rank_results env database results (g1\<lparr>addressCache := a\<rparr>)")
    from rank_results_frame [of env database results g1] obtain b where "g2 = g1\<lparr>addressCache := b\<rparr>"
      unfolding r snd_conv by (rule exE)
    moreover from rank_results_frame [of env database results "g1\<lparr>addressCache := a\<rparr>"]
    obtain c where "g2a = g1\<lparr>addressCache := a\<rparr>\<lparr>addressCache := c\<rparr>"
      unfolding ra snd_conv by (rule exE)
    ultimately have g2a: "g2a = g2\<lparr>addressCache := c\<rparr>"
      by simp
    have "reported_results env lng lat (database # dbs) (g\<lparr>addressCache := a\<rparr>)
        = (database, results) # reported_results env lng lat dbs g2a"
      using False sa ra by (intro reported_results_step) simp_all
    also have "\<dots> = (database, results) # reported_results env lng lat dbs g2"
      unfolding g2a by (simp add: Cons.IH)
    also have "\<dots> = reported_results env lng lat (database # dbs) g"
      using False s r by (rule reported_results_step [symmetric])
    finally show ?thesis .
  qed
qed

subsection \<open>The public methods keep the address cache sound\<close>

lemma findAddresses_addresses_sound:
  assumes "addresses_sound env g"
  shows "addresses_sound env (snd (findAddresses env lng lat g))"
  using query_databases_reported [OF assms, of "databases g" lng lat]
  by (simp add: findAddresses_def)

lemma addresses_sound_import:
  assumes "addresses_sound env g"
  shows "addresses_sound env (snd (import lc s g))"
proof (cases "fst (import lc s g)")
  case (Inl e)
  then have "snd (import lc s g) = g"
    by (auto simp: import_def split: sum.splits)
  with assms show ?thesis by simp
next
  case (Inr ok)
  then obtain d where d: "snd (import lc s g) = g\<lparr>databases := databases g @ [d]\<rparr>"
      "db_id d = ''db'' @ to_decimal (length (databases g))"
    by (auto simp: import_def split: sum.splits)
  from assms have seq: "sequential_ids (databases g)" and a: "address_cache_sound env g"
    by (simp_all add: addresses_sound_def)
  have "sequential_ids (databases g @ [d])"
    using seq d(2) by (rule sequential_ids_append)
  moreover have "address_cache_sound env (g\<lparr>databases := databases g @ [d]\<rparr>)"
    using a unfolding address_cache_sound_def by fastforce
  ultimately show ?thesis
    by (simp add: addresses_sound_def d(1))
qed

lemma reachable_addresses_sound:
  assumes "reachable env lc g"
  shows "addresses_sound env g"
  using assms
proof (induction rule: reachable.induct)
  case (created g)
  then show ?case
    by (simp add: addresses_sound_def address_cache_sound_def sequential_ids_Nil)
next
  case (imported g s)
  then show ?case by (simp add: addresses_sound_import)
next
  case (radius_set g r)
  then show ?case
    by (simp add: addresses_sound_def address_cache_sound_def setRadius_def)
next
  case (language_set g l)
  then show ?case
    by (simp add: addresses_sound_def address_cache_sound_def setLanguage_def cache_clear_def)
next
  case (filter_set g t enabled)
  then show ?case
    by (simp add: addresses_sound_def address_cache_sound_def setFilterEnabled_def)
next
  case (queried g lng lat)
  then show ?case by (simp add: findAddresses_addresses_sound)
qed

section \<open>Evaluation of the concrete instances\<close>

lemma to_decimal_digits:
  "to_decimal 0 = ''0''" "to_decimal (Suc 0) = ''1''" "to_decimal 2 = ''2''"
  "to_decimal 7 = ''7''" "to_decimal 8 = ''8''" "to_decimal 9 = ''9''"
  by code_simp+

lemma demo_import:
  "snd (import integer_literal demo_store (setRadius r demo_engine)) = demo_state r [] [] 0 0"
  by (simp add: import_def getBounds_def getOrigin_def select_metadata_def
      demo_store_def setRadius_def demo_engine_def demo_database_def demo_state_def to_decimal_digits)

lemma demo_reachable:
  "reachable env integer_literal (demo_state r [] [] 0 0)"
proof -
  have "reachable env integer_literal (setRadius r demo_engine)"
    by (intro reachable.radius_set reachable.created) (simp_all add: demo_engine_def)
  then have "reachable env integer_literal
      (snd (import integer_literal demo_store (setRadius r demo_engine)))"
    by (rule reachable.imported)
  then show ?thesis
    by (simp only: demo_import)
qed

lemma demo_row:
  "row_geometry_infos (demo_collaborators index) demo_database converter
     \<lparr>row_id = 7, row_features = ''P'', row_housenumbers = None\<rparr>
   = [(7, [converter (Finite 1, Finite 0)])]"
  apply (simp only: row_geometry_infos_def)
  apply (simp add: demo_collaborators_def demo_database_def directId_def
      feature_geometries_def List.map_filter_def vec_add_def fp_add_def fp_round_binary64_one)
  done

lemma demo_sql:
  "entities_sql (\<lambda>types. []) ([] :: nat list) [1]
     = ''SELECT id, features, housenumbers FROM entities WHERE quadindex in (1)''"
  "entities_sql (\<lambda>types. []) ([] :: nat list) [2]
     = ''SELECT id, features, housenumbers FROM entities WHERE quadindex in (2)''"
  by (simp_all add: entities_sql_def to_decimal_digits)

lemma demo_stored:
  "stored_geometry_infos (demo_collaborators index) demo_database converter
     ''SELECT id, features, housenumbers FROM entities WHERE quadindex in (1)''
     = [(7, [converter (Finite 1, Finite 0)])]"
  "stored_geometry_infos (demo_collaborators index) demo_database converter
     ''SELECT id, features, housenumbers FROM entities WHERE quadindex in (2)'' = []"
proof -
  have "select_entities (db_store demo_database)
      ''SELECT id, features, housenumbers FROM entities WHERE quadindex in (1)''
      = [\<lparr>row_id = 7, row_features = ''P'', row_housenumbers = None\<rparr>]"
    by (simp add: demo_database_def demo_store_def demo_sql)
  then show "stored_geometry_infos (demo_collaborators index) demo_database converter
     ''SELECT id, features, housenumbers FROM entities WHERE quadindex in (1)''
     = [(7, [converter (Finite 1, Finite 0)])]"
    by (simp add: stored_geometry_infos_def demo_row)
  have "select_entities (db_store demo_database)
      ''SELECT id, features, housenumbers FROM entities WHERE quadindex in (2)'' = []"
    by (simp add: demo_database_def demo_store_def demo_sql)
  then show "stored_geometry_infos (demo_collaborators index) demo_database converter
     ''SELECT id, features, housenumbers FROM entities WHERE quadindex in (2)'' = []"
    by (simp add: stored_geometry_infos_def)
qed

lemma demo_in_bounds: "\<not> out_of_bounds env demo_database lng lat r"
  by (simp add: out_of_bounds_def demo_database_def)

lemma demo_findGeometries: "findGeometries (demo_collaborators index) = index"
  by (simp add: demo_collaborators_def)

lemma demo_buildTypeFilter: "buildTypeFilter (demo_collaborators index) = (\<lambda>types. [])"
  by (simp add: demo_collaborators_def)

lemma demo_stored_address:
  "stored_address (demo_collaborators index) database lang entityId = (entityId, lang)"
  by (simp add: stored_address_def demo_collaborators_def)

text \<open>The two cached methods on the engines of the instances.\<close>

lemma demo_findGeometryInfo:
  "findGeometryInfo (demo_collaborators index) demo_database quadIndices converter
       (demo_state r addresses geomInfos n m) =
     (case map_of geomInfos (''db0_'' @ entities_sql (\<lambda>types. []) ([] :: nat list) quadIndices) of
        Some infos \<Rightarrow>
          (infos,
           demo_state r addresses
             ((''db0_'' @ entities_sql (\<lambda>types. []) ([] :: nat list) quadIndices, infos)
                # drop_key (''db0_'' @ entities_sql (\<lambda>types. []) ([] :: nat list) quadIndices) geomInfos)
             n m)
      | None \<Rightarrow>
          (stored_geometry_infos (demo_collaborators index) demo_database converter
             (entities_sql (\<lambda>types. []) ([] :: nat list) quadIndices),
           demo_state r addresses
             (take 1
               ((''db0_'' @ entities_sql (\<lambda>types. []) ([] :: nat list) quadIndices,
                 stored_geometry_infos (demo_collaborators index) demo_database converter
                   (entities_sql (\<lambda>types. []) ([] :: nat list) quadIndices))
                # drop_key (''db0_'' @ entities_sql (\<lambda>types. []) ([] :: nat list) quadIndices) geomInfos))
             (Suc n) m))"
  apply (simp only: findGeometryInfo_def stored_geometry_infos_def)
  apply (simp add: demo_state_def Let_def cache_read_def cache_put_def demo_database_def
      demo_collaborators_def split: option.splits)
  done

lemma demo_resolve_address:
  "resolve_address (demo_collaborators index) demo_database entityId
       (demo_state r addresses geomInfos n m) =
     (case map_of addresses (''db0_'' @ to_decimal (unat entityId)) of
        Some address \<Rightarrow>
          (address,
           demo_state r
             ((''db0_'' @ to_decimal (unat entityId), address)
                # drop_key (''db0_'' @ to_decimal (unat entityId)) addresses)
             geomInfos n m)
      | None \<Rightarrow>
          ((entityId, ''en''),
           demo_state r
             (take 2 ((''db0_'' @ to_decimal (unat entityId), (entityId, ''en''))
                # drop_key (''db0_'' @ to_decimal (unat entityId)) addresses))
             geomInfos n m))"
  apply (simp only: resolve_address_def)
  apply (simp add: demo_state_def Let_def cache_read_def cache_put_def demo_database_def
      demo_collaborators_def split: option.splits)
  done

lemma demo_state_fields:
  "(demo_state r addresses geomInfos n m)
      \<lparr>previousEntityQueryCounter := entityQueryCounter (demo_state r addresses geomInfos n m)\<rparr>
     = demo_state r addresses geomInfos n n"
  "radius (demo_state r addresses geomInfos n m) = r"
  "language (demo_state r addresses geomInfos n m) = ''en''"
  "databases (demo_state r addresses geomInfos n m) = [demo_database]"
  "enabledFilters (demo_state r addresses geomInfos n m) = []"
  "clear_caches (demo_state r addresses geomInfos n m) = demo_state r [] [] n m"
  "(demo_state r addresses geomInfos n m)
      \<lparr>addressCache := cache_clear (addressCache (demo_state r addresses geomInfos n m))\<rparr>
     = demo_state r [] geomInfos n m"
  by (simp_all add: demo_state_def clear_caches_def cache_clear_def)

lemma vec_sub_sample:
  "vec_sub (Finite 1, Finite 0) (Finite 1, Finite 0) = (Finite 0, Finite 0)"
  "vec_sub (Finite 1, Finite 0) (Finite 0, Finite 0) = (Finite 1, Finite 0)"
  by (simp_all add: vec_sub_def fp_sub_def fp_add_def fp_round_binary64_one)

lemma sample_length_sample:
  "sample_length (Finite 0, Finite 0) = Finite 0"
  "sample_length (Finite 1, Finite 0) = Finite 1"
  by (simp_all add: sample_length_def fp_round_binary64_one)

lemmas demo_eval =
  findAddresses_def demo_buildTypeFilter demo_state_fields demo_in_bounds demo_findGeometries demo_findGeometryInfo
  demo_resolve_address demo_sql demo_stored to_decimal_digits drop_key_def
  vec_sub_sample sample_length_sample demo_distances_def demo_cells_def

text \<open>The index with the local converter.\<close>

lemma local_first:
  "findAddresses (demo_collaborators local_index) (Finite 1) (Finite 0) (demo_state (Finite 2) [] [] n m)
    = ([((7, ''en''), Finite 1)],
       demo_state (Finite 2) [(''db0_7'', (7, ''en''))]
         [(''db0_SELECT id, features, housenumbers FROM entities WHERE quadindex in (1)'',
           [(7, [(Finite 0, Finite 0)])])] (Suc n) n)"
  by (simp add: demo_eval local_index_def fp_less_def fp_less_eq_def rank_two_zero)

lemma local_warm:
  "findAddresses (demo_collaborators local_index) (Finite 0) (Finite 0)
     (demo_state (Finite 2) [(''db0_7'', (7, ''en''))]
         [(''db0_SELECT id, features, housenumbers FROM entities WHERE quadindex in (1)'',
           [(7, [(Finite 0, Finite 0)])])] n m)
    = ([((7, ''en''), Finite 1)],
       demo_state (Finite 2) [(''db0_7'', (7, ''en''))]
         [(''db0_SELECT id, features, housenumbers FROM entities WHERE quadindex in (2)'', [])]
         (Suc n) n)"
  by (simp add: demo_eval local_index_def fp_less_def fp_less_eq_def rank_two_zero)

lemma local_again:
  "findAddresses (demo_collaborators local_index) (Finite 0) (Finite 0)
     (demo_state (Finite 2) [(''db0_7'', (7, ''en''))]
         [(''db0_SELECT id, features, housenumbers FROM entities WHERE quadindex in (2)'', [])] n m)
    = ([((7, ''en''), Finite (1 / 2))],
       demo_state (Finite 2) [(''db0_7'', (7, ''en''))]
         [(''db0_SELECT id, features, housenumbers FROM entities WHERE quadindex in (2)'', [])]
         (Suc (Suc n)) n)"
  by (simp add: demo_eval local_index_def fp_less_def fp_less_eq_def rank_two_one)

lemma local_cold:
  "findAddresses (demo_collaborators local_index) (Finite 0) (Finite 0)
     (demo_state (Finite 2) [] [] n m)
    = ([((7, ''en''), Finite (1 / 2))],
       demo_state (Finite 2) [(''db0_7'', (7, ''en''))]
         [(''db0_SELECT id, features, housenumbers FROM entities WHERE quadindex in (2)'', [])]
         (Suc (Suc n)) n)"
  by (simp add: demo_eval local_index_def fp_less_def fp_less_eq_def rank_two_one)

text \<open>The index with the one converter.\<close>

lemma global_first:
  "findAddresses (demo_collaborators global_index) (Finite 1) (Finite 0) (demo_state (Finite 2) [] [] n m)
    = ([((7, ''en''), Finite 1)],
       demo_state (Finite 2) [(''db0_7'', (7, ''en''))]
         [(''db0_SELECT id, features, housenumbers FROM entities WHERE quadindex in (1)'',
           [(7, [(Finite 1, Finite 0)])])] (Suc n) n)"
  by (simp add: demo_eval global_index_def fp_less_def fp_less_eq_def rank_two_zero)

lemma global_warm:
  "findAddresses (demo_collaborators global_index) (Finite 0) (Finite 0)
     (demo_state (Finite 2) [(''db0_7'', (7, ''en''))]
         [(''db0_SELECT id, features, housenumbers FROM entities WHERE quadindex in (1)'',
           [(7, [(Finite 1, Finite 0)])])] n m)
    = ([((7, ''en''), Finite (1 / 2))],
       demo_state (Finite 2) [(''db0_7'', (7, ''en''))]
         [(''db0_SELECT id, features, housenumbers FROM entities WHERE quadindex in (2)'', [])]
         (Suc n) n)"
  by (simp add: demo_eval global_index_def fp_less_def fp_less_eq_def rank_two_one)

lemma global_again:
  "findAddresses (demo_collaborators global_index) (Finite 0) (Finite 0)
     (demo_state (Finite 2) [(''db0_7'', (7, ''en''))]
         [(''db0_SELECT id, features, housenumbers FROM entities WHERE quadindex in (2)'', [])] n m)
    = ([((7, ''en''), Finite (1 / 2))],
       demo_state (Finite 2) [(''db0_7'', (7, ''en''))]
         [(''db0_SELECT id, features, housenumbers FROM entities WHERE quadindex in (2)'', [])]
         (Suc (Suc n)) n)"
  by (simp add: demo_eval global_index_def fp_less_def fp_less_eq_def rank_two_one)

lemma demo_imported_state: "demo_imported = demo_state (Finite 2) [] [] 0 0"
  by (simp add: demo_imported_def demo_import)

lemma demo_warm_local:
  "demo_warm local_index =
     demo_state (Finite 2) [(''db0_7'', (7, ''en''))]
         [(''db0_SELECT id, features, housenumbers FROM entities WHERE quadindex in (1)'',
           [(7, [(Finite 0, Finite 0)])])] 1 0"
  by (simp add: demo_warm_def demo_imported_state local_first)

lemma demo_warm_global:
  "demo_warm global_index =
     demo_state (Finite 2) [(''db0_7'', (7, ''en''))]
         [(''db0_SELECT id, features, housenumbers FROM entities WHERE quadindex in (1)'',
           [(7, [(Finite 1, Finite 0)])])] 1 0"
  by (simp add: demo_warm_def demo_imported_state global_first)

lemma demo_warm_reachable:
  "reachable (demo_collaborators index) integer_literal (demo_warm index)"
  unfolding demo_warm_def demo_imported_state
  by (intro reachable.queried demo_reachable)

lemma demo_uncached:
  "uncached_findAddresses (demo_collaborators local_index) (Finite 0) (Finite 0)
     (settings (demo_state (Finite 2) addresses geomInfos n m)) = [((7, ''en''), Finite (1 / 2))]"
  "uncached_findAddresses (demo_collaborators global_index) (Finite 0) (Finite 0)
     (settings (demo_state (Finite 2) addresses geomInfos n m)) = [((7, ''en''), Finite (1 / 2))]"
  by (simp_all add: uncached_findAddresses_def settings_def demo_eval local_index_def global_index_def
      uncached_ranked_def demo_stored_address fp_less_def fp_less_eq_def rank_two_one)

section \<open>The ranks that \<open>findAddresses\<close> returns\<close>

text \<open>A query on one database without bounds, whose search reports the given results.\<close>

lemma findAddresses_sample:
  "map snd (fst (findAddresses (sample_collaborators (Found results)) lng lat
      (sample_engine\<lparr>databases := [sample_database], radius := r\<rparr>)))
   = filter (fp_less (Finite 0)) (map (\<lambda>result. rank r (snd result)) results)"
proof -
  let ?env = "sample_collaborators (Found results)"
  let ?g = "sample_engine\<lparr>databases := [sample_database], radius := r\<rparr>"
  let ?start = "sample_engine\<lparr>databases := [sample_database], radius := r,
      previousEntityQueryCounter := entityQueryCounter sample_engine\<rparr>"
  obtain found g2 where f: "rank_results ?env sample_database results ?start = (found, g2)"
    by (cases "rank_results ?env sample_database results ?start")
  have b: "\<not> out_of_bounds ?env sample_database lng lat r"
    by (simp add: out_of_bounds_def sample_database_def)
  have s: "findGeometries ?env lng lat r = Found results"
    by (simp add: sample_collaborators_def)
  have "query_databases ?env lng lat [sample_database] ?g = (found, g2)"
    using b by (simp add: s f)
  then have "fst (findAddresses ?env lng lat ?g) = found"
    by (simp add: findAddresses_def)
  moreover have "map snd found = filter (fp_less (Finite 0)) (map (\<lambda>result. rank r (snd result)) results)"
    using rank_results_ranks [of ?env sample_database results ?start] by (simp add: f)
  ultimately show ?thesis by simp
qed

text \<open>
  C1, as amended. Let the engine be in a state that its public methods produce, with
  a positive radius \<open>r\<close> (a \<open>float\<close>), and let the searches report no negative
  distance. Then \<open>findAddresses\<close> returns, database by database and in the order of
  the reported results, one pair for each result whose rank is above 0: the address
  that the store of this database holds for the entity of the result, in the active
  language, and the rank \<open>1 - distance / r\<close>, computed in \<open>float\<close> arithmetic from the
  distance of the same result. Every rank returned is above 0 and at most 1. The rank
  does not increase with the distance: a result that is at least as far as another
  has a rank that is at most the rank of the other (for an infinite radius, as long
  as the farther distance is finite as a \<open>float\<close>). A result at a distance of \<open>r\<close> or
  more has no positive rank, so it is not returned.
\<close>

theorem findAddresses_ranks:
  assumes "reachable env lc g"
    and "fp_less (Finite 0) (radius g)"
    and "fp_convert binary32 (radius g) = radius g"
    and "distances_nonnegative (findGeometries env lng lat (radius g))"
  shows "fst (findAddresses env lng lat g) =
      concat (map (\<lambda>reported.
          map (\<lambda>result.
              (stored_address env (fst reported) (language g) (fst result),
               fp_sub binary32 (Finite 1)
                 (fp_div binary32 (fp_convert binary32 (snd result)) (radius g))))
            (filter (\<lambda>result. fp_less (Finite 0) (rank (radius g) (snd result))) (snd reported)))
        (reported_results env lng lat (databases g) g))
    \<and> (\<forall>reported \<in> set (reported_results env lng lat (databases g) g).
          fst reported \<in> set (databases g)
          \<and> snd reported \<in> outcomes (findGeometries env lng lat (radius g)))
    \<and> (\<forall>p \<in> set (fst (findAddresses env lng lat g)).
          fp_less (Finite 0) (snd p) \<and> fp_less_eq (snd p) (Finite 1))
    \<and> (\<forall>d1 d2. fp_less_eq (Finite 0) d1 \<and> fp_less_eq d1 d2
            \<and> (radius g = PosInf \<longrightarrow> fp_convert binary32 d2 \<noteq> PosInf)
          \<longrightarrow> fp_less_eq (rank (radius g) d2) (rank (radius g) d1))
    \<and> (\<forall>d. fp_less_eq (radius g) d \<longrightarrow> \<not> fp_less (Finite 0) (rank (radius g) d))"
proof -
  have sound: "addresses_sound env g"
    using assms(1) by (rule reachable_addresses_sound)
  have "fst (findAddresses env lng lat g) =
      concat (map (\<lambda>reported.
          uncached_ranked env (fst reported) (language g) (radius g) (snd reported))
        (reported_results env lng lat (databases g) g))"
    using query_databases_reported [OF sound, of "databases g" lng lat]
    by (simp add: findAddresses_def)
  then have pairs: "fst (findAddresses env lng lat g) =
      concat (map (\<lambda>reported.
          map (\<lambda>result.
              (stored_address env (fst reported) (language g) (fst result),
               fp_sub binary32 (Finite 1)
                 (fp_div binary32 (fp_convert binary32 (snd result)) (radius g))))
            (filter (\<lambda>result. fp_less (Finite 0) (rank (radius g) (snd result))) (snd reported)))
        (reported_results env lng lat (databases g) g))"
    by (simp only: uncached_ranked_def rank_def)
  have reported: "fst reported \<in> set (databases g)
      \<and> snd reported \<in> outcomes (findGeometries env lng lat (radius g))"
    if "reported \<in> set (reported_results env lng lat (databases g) g)" for reported
    using that by (rule reported_results_outcomes)
  have bounds: "fp_less (Finite 0) (snd p) \<and> fp_less_eq (snd p) (Finite 1)"
    if "p \<in> set (fst (findAddresses env lng lat g))" for p
  proof -
    from that obtain results result where r:
      "results \<in> outcomes (findGeometries env lng lat (radius g))" "result \<in> set results"
      "snd p = rank (radius g) (snd result)" "fp_less (Finite 0) (snd p)"
      unfolding findAddresses_def using query_databases_ranks by blast
    from r(1,2) assms(4) have "fp_less_eq (Finite 0) (snd result)"
      by (auto simp: distances_nonnegative_def)
    with assms(2) r(3,4) have "fp_less_eq (snd p) (Finite 1)"
      by (simp add: rank_at_most_one)
    with r(4) show ?thesis by simp
  qed
  have mono: "fp_less_eq (rank (radius g) d2) (rank (radius g) d1)"
    if "fp_less_eq (Finite 0) d1 \<and> fp_less_eq d1 d2
        \<and> (radius g = PosInf \<longrightarrow> fp_convert binary32 d2 \<noteq> PosInf)"
    for d1 d2
    using assms(2)
  proof (cases rule: fp_less_positive_cases)
    case (1 x)
    with that show ?thesis
      by (simp add: rank_mono_finite)
  next
    case 2
    with that show ?thesis
      by (simp add: rank_infinite_radius_mono)
  qed
  have beyond: "\<not> fp_less (Finite 0) (rank (radius g) d)" if "fp_less_eq (radius g) d" for d
    using assms(2,3) that by (rule rank_beyond_radius)
  from pairs reported bounds mono beyond show ?thesis
    by blast
qed

theorem findAddresses_ranks_witness:
  "reachable (demo_collaborators (\<lambda>lng lat r. Found [(7, Finite 1), (8, Finite 2), (9, Finite 0)]))
     integer_literal demo_imported
   \<and> radius demo_imported = Finite 2
   \<and> fp_less (Finite 0) (Finite 2)
   \<and> fp_convert binary32 (Finite 2) = Finite 2
   \<and> distances_nonnegative (Found [(7, Finite 1), (8, Finite 2), (9, Finite 0)] :: vec2 quad_search)
   \<and> reported_results
        (demo_collaborators (\<lambda>lng lat r. Found [(7, Finite 1), (8, Finite 2), (9, Finite 0)]))
        (Finite 0) (Finite 0) (databases demo_imported) demo_imported
       = [(demo_database, [(7, Finite 1), (8, Finite 2), (9, Finite 0)])]
   \<and> fst (findAddresses
        (demo_collaborators (\<lambda>lng lat r. Found [(7, Finite 1), (8, Finite 2), (9, Finite 0)]))
        (Finite 0) (Finite 0) demo_imported)
       = [((7, ''en''), Finite (1 / 2)), ((9, ''en''), Finite 1)]
   \<and> fp_less_eq (rank (Finite 2) (Finite 2)) (rank (Finite 2) (Finite 1))
   \<and> \<not> fp_less (Finite 0) (rank (Finite 2) (Finite 2))"
proof -
  let ?env = "demo_collaborators (\<lambda>lng lat r. Found [(7, Finite 1), (8, Finite 2), (9, Finite 0)])"
  have h1: "reachable ?env integer_literal demo_imported"
    unfolding demo_imported_state by (rule demo_reachable)
  have r: "radius demo_imported = Finite 2"
    by (simp add: demo_imported_state demo_state_fields)
  have h2: "fp_less (Finite 0) (radius demo_imported)"
    by (simp add: r fp_less_def)
  have h3: "fp_convert binary32 (radius demo_imported) = radius demo_imported"
    by (simp add: r fp_convert_def fp_round_binary32_two)
  have h4: "distances_nonnegative (findGeometries ?env (Finite 0) (Finite 0) (radius demo_imported))"
    by (simp add: distances_nonnegative_def demo_findGeometries fp_less_eq_def)
  have reported: "reported_results ?env (Finite 0) (Finite 0) (databases demo_imported) demo_imported
      = [(demo_database, [(7, Finite 1), (8, Finite 2), (9, Finite 0)])]"
    by (simp add: demo_imported_state demo_state_fields demo_in_bounds demo_findGeometries)
  have found: "fst (findAddresses ?env (Finite 0) (Finite 0) demo_imported)
      = [((7, ''en''), Finite (1 / 2)), ((9, ''en''), Finite 1)]"
    by (simp add: demo_imported_state demo_eval fp_less_def rank_two_one rank_two_two rank_two_zero)
  note ranks = findAddresses_ranks [OF h1 h2 h3 h4]
  have "fp_less_eq (rank (Finite 2) (Finite 2)) (rank (Finite 2) (Finite 1))"
    using ranks [THEN conjunct2, THEN conjunct2, THEN conjunct2, THEN conjunct1, rule_format,
        of "Finite 1" "Finite 2"]
    by (simp add: r fp_less_eq_def)
  moreover have "\<not> fp_less (Finite 0) (rank (Finite 2) (Finite 2))"
    using ranks [THEN conjunct2, THEN conjunct2, THEN conjunct2, THEN conjunct2, rule_format,
        of "Finite 2"]
    by (simp add: r fp_less_eq_def)
  ultimately show ?thesis
    using r h1 h2 h3 h4 reported found by (simp add: demo_findGeometries)
qed

text \<open>
  C1 as stated fails in its strict order: the distances 1 and \<open>1 + 2 ^ -30\<close>, both
  values of a \<open>double\<close>, are different and below the radius 2, but they are the same
  \<open>float\<close>, so the entities 7 and 8 are both returned with the rank \<open>1 / 2\<close>.
\<close>

theorem findAddresses_equal_ranks_counterexample:
  "fp_less (Finite 1) (Finite (1 + 1 / 2 ^ 30))
   \<and> fp_less_eq (Finite (1 + 1 / 2 ^ 30)) (Finite 2)
   \<and> fp_convert binary64 (Finite (1 + 1 / 2 ^ 30)) = Finite (1 + 1 / 2 ^ 30)
   \<and> radius demo_imported = Finite 2
   \<and> fst (findAddresses
        (demo_collaborators (\<lambda>lng lat r. Found [(7, Finite 1), (8, Finite (1 + 1 / 2 ^ 30))]))
        (Finite 0) (Finite 0) demo_imported)
       = [((7, ''en''), Finite (1 / 2)), ((8, ''en''), Finite (1 / 2))]
   \<and> \<not> fp_less (rank (Finite 2) (Finite (1 + 1 / 2 ^ 30))) (rank (Finite 2) (Finite 1))"
proof -
  have "fst (findAddresses
        (demo_collaborators (\<lambda>lng lat r. Found [(7, Finite 1), (8, Finite (1 + 1 / 2 ^ 30))]))
        (Finite 0) (Finite 0) demo_imported)
       = [((7, ''en''), Finite (1 / 2)), ((8, ''en''), Finite (1 / 2))]"
    by (simp add: demo_imported_state demo_eval rank_two_one rank_two_near_one [simplified] fp_less_def)
  moreover have "fp_convert binary64 (Finite (1 + 1 / 2 ^ 30)) = Finite (1 + 1 / 2 ^ 30)"
    unfolding fp_convert_def by (simp add: fp_round_binary64_near_one [simplified])
  moreover have "\<not> fp_less (rank (Finite 2) (Finite (1 + 1 / 2 ^ 30))) (rank (Finite 2) (Finite 1))"
    unfolding rank_two_one rank_two_near_one by (simp add: fp_less_def)
  ultimately show ?thesis
    by (simp add: fp_less_def fp_less_eq_def demo_imported_state demo_state_fields)
qed




section \<open>The bounding prefilter at the meridian of 180 degrees\<close>

lemma sample_length_on_axis: "sample_length (Finite x, Finite 0) = fp_round binary64 \<bar>x\<bar>"
  by (simp add: sample_length_def)

lemma bounds_distance_across_meridian:
  "bounds_distance (sample_collaborators search)
     \<lparr>bmin = (Finite (- 180), Finite (- 1)), bmax = (Finite (- 179), Finite 1)\<rparr>
     (Finite (359 / 2)) (Finite 0)
   = Finite (79815723 / 2)"
proof -
  have r1: "fp_round binary64 (- (717 / 2)) = Finite (- (717 / 2))"
    unfolding binary64_def
    by (rule fp_round_exact [where k = 8]) (simp_all add: power_int_minus)
  have r2: "fp_round binary64 (- (79815723 / 2)) = Finite (- (79815723 / 2))"
    unfolding binary64_def
    by (rule fp_round_exact [where k = 25]) (simp_all add: power_int_minus)
  have r3: "fp_round binary64 (79815723 / 2) = Finite (79815723 / 2)"
    unfolding binary64_def
    by (rule fp_round_exact [where k = 25]) (simp_all add: power_int_minus)
  have point: "sample_nearest_point
      \<lparr>bmin = (Finite (- 180), Finite (- 1)), bmax = (Finite (- 179), Finite 1)\<rparr>
      (Finite (359 / 2), Finite 0) = (Finite (- 179), Finite 0)"
    by (simp add: sample_nearest_point_def sample_clamp_def fp_less_def)
  have diff: "vec_sub (Finite (- 179), Finite 0) (Finite (359 / 2), Finite 0)
      = (Finite (- (717 / 2)), Finite 0)"
    by (simp add: vec_sub_def fp_sub_def fp_add_def r1)
  have m1: "fp_mul binary64 (Finite (- (717 / 2))) (Finite 111319) = Finite (- (79815723 / 2))"
    by (simp add: fp_mul_def r2)
  have m2: "fp_mul binary64 (Finite 0) (Finite 110574) = Finite 0"
    by (simp add: fp_mul_def fp_zero_def)
  show ?thesis
    by (simp add: bounds_distance_def sample_collaborators_def point diff m1 m2
        sample_length_on_axis r3)
qed

lemma rank_half_degree: "rank (Finite 131072) (Finite (111319 / 2)) = Finite (150825 / 262144)"
proof -
  have r1: "fp_round binary32 (111319 / 2) = Finite (111319 / 2)"
    unfolding binary32_def
    by (rule fp_round_exact [where k = 15]) (simp_all add: power_int_minus)
  have r2: "fp_round binary32 (111319 / 262144) = Finite (111319 / 262144)"
    unfolding binary32_def
    by (rule fp_round_exact [where k = "- 2"]) (simp_all add: power_int_minus)
  have r3: "fp_round binary32 (150825 / 262144) = Finite (150825 / 262144)"
    unfolding binary32_def
    by (rule fp_round_exact [where k = "- 1"]) (simp_all add: power_int_minus)
  show ?thesis
    by (simp add: rank_def fp_convert_def r1 fp_div_positive r2 fp_sub_from_one r3)
qed

text \<open>
  C3 fails on the code. The bounds of the database reach from 180 to 179 degrees west;
  the query point is at 179.5 degrees east on the equator, half a degree (55659.5 m)
  from the meridian of 180 degrees, where an entity lies; the radius is 131072 m. The
  prefilter takes the difference of the longitudes as it is, 358.5 degrees, computes
  a distance of 39907861.5 m and skips the database: \<open>findAddresses\<close> returns nothing,
  although the search reports the entity within the radius, and the same database
  without bounds returns it with a positive rank.
\<close>

theorem prefilter_discards_match_across_meridian:
  "bounds_distance (sample_collaborators (Found [(7, Finite (111319 / 2))]))
     \<lparr>bmin = (Finite (- 180), Finite (- 1)), bmax = (Finite (- 179), Finite 1)\<rparr>
     (Finite (359 / 2)) (Finite 0) = Finite (79815723 / 2)
   \<and> out_of_bounds (sample_collaborators (Found [(7, Finite (111319 / 2))]))
        sample_bounded_database (Finite (359 / 2)) (Finite 0) (Finite 131072)
   \<and> fst (findAddresses (sample_collaborators (Found [(7, Finite (111319 / 2))]))
        (Finite (359 / 2)) (Finite 0)
        (sample_engine\<lparr>databases := [sample_bounded_database], radius := Finite 131072\<rparr>)) = []
   \<and> fp_less_eq (Finite (111319 / 2)) (Finite 131072)
   \<and> map snd (fst (findAddresses (sample_collaborators (Found [(7, Finite (111319 / 2))]))
        (Finite (359 / 2)) (Finite 0)
        (sample_engine\<lparr>databases := [sample_database], radius := Finite 131072\<rparr>)))
       = [Finite (150825 / 262144)]"
proof -
  let ?env = "sample_collaborators (Found [(7, Finite (111319 / 2))])"
  have skip: "out_of_bounds ?env sample_bounded_database (Finite (359 / 2)) (Finite 0) (Finite 131072)"
    by (simp add: out_of_bounds_def sample_bounded_database_def bounds_distance_across_meridian
        fp_less_def)
  then have "fst (findAddresses ?env (Finite (359 / 2)) (Finite 0)
      (sample_engine\<lparr>databases := [sample_bounded_database], radius := Finite 131072\<rparr>)) = []"
    by (simp add: findAddresses_def)
  moreover have "map snd (fst (findAddresses ?env (Finite (359 / 2)) (Finite 0)
      (sample_engine\<lparr>databases := [sample_database], radius := Finite 131072\<rparr>)))
      = [Finite (150825 / 262144)]"
    by (simp add: findAddresses_sample rank_half_degree fp_less_def)
  ultimately show ?thesis
    using skip by (simp add: bounds_distance_across_meridian fp_less_eq_def)
qed

section \<open>Cache transparency\<close>

subsection \<open>The cached methods agree with the stores\<close>

lemma query_cache_hit:
  assumes "caches_sound env converter g" and "database \<in> set (databases g)"
    and "(db_id database @ ''_'' @ sql, infos) \<in> set (entries (queryCache g))"
  shows "infos = stored_geometry_infos env database converter sql"
proof -
  from assms(1) have seq: "sequential_ids (databases g)" and "query_cache_sound env converter g"
    by (simp_all add: caches_sound_def)
  with assms(3) obtain database' sql' where e:
    "database' \<in> set (databases g)"
    "db_id database @ ''_'' @ sql = db_id database' @ ''_'' @ sql'"
    "infos = stored_geometry_infos env database' converter sql'"
    unfolding query_cache_sound_def by fastforce
  from cache_key_inj [OF seq assms(2) e(1) e(2)] e(3) show ?thesis by simp
qed

text \<open>Soundness only depends on the configuration and on the entries of the caches.\<close>

lemma caches_sound_subset:
  assumes "caches_sound env converter g" and "settings g' = settings g"
    and "set (entries (addressCache g')) \<subseteq> set (entries (addressCache g))"
    and "set (entries (queryCache g')) \<subseteq> set (entries (queryCache g))"
  shows "caches_sound env converter g'"
proof -
  from assms(2) have s: "databases g' = databases g" "language g' = language g"
    by (simp_all add: settings_def)
  from assms(1) have "address_cache_sound env g" and "query_cache_sound env converter g"
    and "sequential_ids (databases g)"
    by (simp_all add: caches_sound_def)
  then show ?thesis
    using assms(3,4) unfolding caches_sound_def address_cache_sound_def query_cache_sound_def s
    by blast
qed

lemma caches_sound_put_query:
  assumes "caches_sound env converter g" and "settings g' = settings g"
    and "database \<in> set (databases g)"
    and "set (entries (queryCache g')) \<subseteq>
      insert (db_id database @ ''_'' @ sql, stored_geometry_infos env database converter sql)
        (set (entries (queryCache g)))"
    and "set (entries (addressCache g')) \<subseteq> set (entries (addressCache g))"
  shows "caches_sound env converter g'"
proof -
  from assms(2) have s: "databases g' = databases g" "language g' = language g"
    by (simp_all add: settings_def)
  from assms(1) have a: "address_cache_sound env g" and q: "query_cache_sound env converter g"
    and seq: "sequential_ids (databases g)"
    by (simp_all add: caches_sound_def)
  have "query_cache_sound env converter g'"
    unfolding query_cache_sound_def s
  proof
    fix entry
    assume "entry \<in> set (entries (queryCache g'))"
    with assms(4) consider
      "entry = (db_id database @ ''_'' @ sql, stored_geometry_infos env database converter sql)"
      | "entry \<in> set (entries (queryCache g))" by blast
    then show "\<exists>database \<in> set (databases g). \<exists>sql.
        fst entry = db_id database @ ''_'' @ sql
        \<and> snd entry = stored_geometry_infos env database converter sql"
    proof cases
      case 1
      with assms(3) show ?thesis by auto
    next
      case 2
      with q show ?thesis unfolding query_cache_sound_def by blast
    qed
  qed
  moreover have "address_cache_sound env g'"
    using a assms(5) unfolding address_cache_sound_def s by blast
  ultimately show ?thesis
    using seq by (simp add: caches_sound_def s)
qed

lemma findGeometryInfo_sound:
  assumes "caches_sound env converter g" and "database \<in> set (databases g)"
  shows "fst (findGeometryInfo env database quadIndices converter g) =
      stored_geometry_infos env database converter
        (entities_sql (buildTypeFilter env) (enabledFilters g) quadIndices)"
    and "caches_sound env converter (snd (findGeometryInfo env database quadIndices converter g))"
proof -
  let ?sql = "entities_sql (buildTypeFilter env) (enabledFilters g) quadIndices"
  let ?key = "db_id database @ ''_'' @ ?sql"
  let ?fresh = "stored_geometry_infos env database converter ?sql"
  let ?r = "findGeometryInfo env database quadIndices converter g"
  have "fst ?r = ?fresh \<and> caches_sound env converter (snd ?r)"
  proof (cases rule: cache_read_cases [of "queryCache g" ?key])
    case (hit infos c')
    then have r: "?r = (infos, g\<lparr>queryCache := c'\<rparr>)"
      by (simp add: findGeometryInfo_def)
    have "infos = ?fresh"
      using assms hit(2) by (rule query_cache_hit)
    moreover have "caches_sound env converter (g\<lparr>queryCache := c'\<rparr>)"
      using assms(1) by (rule caches_sound_subset) (simp_all add: settings_def hit(3))
    ultimately show ?thesis by (simp add: r)
  next
    case miss
    let ?g' = "g\<lparr>queryCache := cache_put (queryCache g) ?key ?fresh,
                  entityQueryCounter := entityQueryCounter g + 1\<rparr>"
    have r: "?r = (?fresh, ?g')"
      using miss by (simp add: findGeometryInfo_def stored_geometry_infos_def Let_def)
    have "caches_sound env converter ?g'"
      using assms(1) _ assms(2)
      by (rule caches_sound_put_query [where sql = ?sql]) (simp_all add: settings_def cache_put_entries)
    then show ?thesis by (simp add: r)
  qed
  then show "fst ?r = ?fresh" and "caches_sound env converter (snd ?r)"
    by simp_all
qed

lemma caches_sound_addresses:
  "caches_sound env converter g \<longleftrightarrow> addresses_sound env g \<and> query_cache_sound env converter g"
  by (auto simp: caches_sound_def addresses_sound_def)

lemma query_cache_sound_addressCache:
  "query_cache_sound env converter (g\<lparr>addressCache := a\<rparr>) = query_cache_sound env converter g"
  by (simp add: query_cache_sound_def)

lemma run_search_sound:
  assumes "caches_sound env converter g" and "database \<in> set (databases g)"
    and "single_converter converter search"
  shows "fst (run_search (findGeometryInfo env database) search g) =
      search_results
        (\<lambda>quadIndices c. stored_geometry_infos env database c
           (entities_sql (buildTypeFilter env) (enabledFilters g) quadIndices))
        search
    \<and> caches_sound env converter (snd (run_search (findGeometryInfo env database) search g))"
  using assms
proof (induction search arbitrary: g)
  case (Found results)
  then show ?case by simp
next
  case (Lookup quadIndices c continue)
  from Lookup.prems(3) have c: "c = converter"
    and rest: "\<And>geomInfos. single_converter converter (continue geomInfos)"
    by simp_all
  obtain geomInfos g' where l: "findGeometryInfo env database quadIndices c g = (geomInfos, g')"
    by (cases "findGeometryInfo env database quadIndices c g")
  have infos: "geomInfos = stored_geometry_infos env database c
      (entities_sql (buildTypeFilter env) (enabledFilters g) quadIndices)"
    using findGeometryInfo_sound(1) [OF Lookup.prems(1,2), of quadIndices] l c by simp
  have sound: "caches_sound env converter g'"
    using findGeometryInfo_sound(2) [OF Lookup.prems(1,2), of quadIndices] l c by simp
  have "settings g' = settings g"
    using settings_findGeometryInfo [of env database quadIndices c g] l by simp
  then have same: "databases g' = databases g" "enabledFilters g' = enabledFilters g"
    by (simp_all add: settings_def)
  have "database \<in> set (databases g')"
    using Lookup.prems(2) same by simp
  with sound have "fst (run_search (findGeometryInfo env database) (continue geomInfos) g') =
      search_results
        (\<lambda>quadIndices c. stored_geometry_infos env database c
           (entities_sql (buildTypeFilter env) (enabledFilters g') quadIndices))
        (continue geomInfos)
    \<and> caches_sound env converter
        (snd (run_search (findGeometryInfo env database) (continue geomInfos) g'))"
    using rest by (intro Lookup.IH) simp_all
  then show ?case
    by (simp add: l same infos)
qed

lemma rank_results_sound:
  assumes "caches_sound env converter g" and "database \<in> set (databases g)"
  shows "fst (rank_results env database results g) =
      uncached_ranked env database (language g) (radius g) results
    \<and> caches_sound env converter (snd (rank_results env database results g))"
proof -
  from assms(1) have a: "addresses_sound env g" and q: "query_cache_sound env converter g"
    by (simp_all add: caches_sound_addresses)
  from rank_results_frame [of env database results g]
  obtain c where "snd (rank_results env database results g) = g\<lparr>addressCache := c\<rparr>"
    by (rule exE)
  with q have "query_cache_sound env converter (snd (rank_results env database results g))"
    by (simp add: query_cache_sound_addressCache)
  with rank_results_stored [OF a assms(2), of results] show ?thesis
    by (simp add: caches_sound_addresses)
qed

lemma query_databases_sound:
  assumes "caches_sound env converter g" and "set dbs \<subseteq> set (databases g)"
    and "single_converter converter (findGeometries env lng lat (radius g))"
  shows "fst (query_databases env lng lat dbs g) =
      uncached_findAddresses env lng lat (dbs, radius g, language g, enabledFilters g)
    \<and> caches_sound env converter (snd (query_databases env lng lat dbs g))"
  using assms
proof (induction dbs arbitrary: g)
  case Nil
  then show ?case by (simp add: uncached_findAddresses_def)
next
  case (Cons database dbs)
  from Cons.prems(2) have db: "database \<in> set (databases g)" and dbs: "set dbs \<subseteq> set (databases g)"
    by simp_all
  show ?case
  proof (cases "out_of_bounds env database lng lat (radius g)")
    case True
    with Cons.IH [OF Cons.prems(1) dbs Cons.prems(3)] show ?thesis
      by (simp add: uncached_findAddresses_def)
  next
    case False
    let ?start = "g\<lparr>previousEntityQueryCounter := entityQueryCounter g\<rparr>"
    let ?search = "findGeometries env lng lat (radius g)"
    from False obtain results g1 found g2 addresses g3 where step:
      "run_search (findGeometryInfo env database) ?search ?start = (results, g1)"
      "rank_results env database results g1 = (found, g2)"
      "query_databases env lng lat dbs g2 = (addresses, g3)"
      "query_databases env lng lat (database # dbs) g = (found @ addresses, g3)"
      "settings g1 = settings g" "settings g2 = settings g"
      by (rule query_databases_step [where dbs = dbs])
    have same1: "databases g1 = databases g" "language g1 = language g" "radius g1 = radius g"
      and same2: "databases g2 = databases g" "language g2 = language g" "radius g2 = radius g"
        "enabledFilters g2 = enabledFilters g"
      using step(5,6) by (simp_all add: settings_def)
    have s0: "caches_sound env converter ?start"
      using Cons.prems(1) by (rule caches_sound_subset) (simp_all add: settings_def)
    have "fst (run_search (findGeometryInfo env database) ?search ?start) =
        search_results
          (\<lambda>quadIndices c. stored_geometry_infos env database c
             (entities_sql (buildTypeFilter env) (enabledFilters ?start) quadIndices))
          ?search
      \<and> caches_sound env converter (snd (run_search (findGeometryInfo env database) ?search ?start))"
      using s0 _ Cons.prems(3) by (rule run_search_sound) (simp add: db)
    then have results: "results = search_results
          (\<lambda>quadIndices c. stored_geometry_infos env database c
             (entities_sql (buildTypeFilter env) (enabledFilters g) quadIndices))
          ?search"
      and s1: "caches_sound env converter g1"
      by (simp_all add: step(1))
    have "fst (rank_results env database results g1) =
        uncached_ranked env database (language g1) (radius g1) results
      \<and> caches_sound env converter (snd (rank_results env database results g1))"
      using s1 by (rule rank_results_sound) (simp add: same1 db)
    then have found: "found = uncached_ranked env database (language g) (radius g) results"
      and s2: "caches_sound env converter g2"
      by (simp_all add: step(2) same1)
    have "fst (query_databases env lng lat dbs g2) =
        uncached_findAddresses env lng lat (dbs, radius g2, language g2, enabledFilters g2)
      \<and> caches_sound env converter (snd (query_databases env lng lat dbs g2))"
      using s2 by (rule Cons.IH) (simp_all add: same2 dbs Cons.prems(3))
    then have rest: "addresses =
        uncached_findAddresses env lng lat (dbs, radius g, language g, enabledFilters g)"
      and s3: "caches_sound env converter g3"
      by (simp_all add: step(3) same2)
    show ?thesis
      unfolding step(4)
      using False by (simp add: s3 found results rest uncached_findAddresses_def)
  qed
qed

lemma findAddresses_sound:
  assumes "caches_sound env converter g"
    and "single_converter converter (findGeometries env lng lat (radius g))"
  shows "fst (findAddresses env lng lat g) = uncached_findAddresses env lng lat (settings g)"
    and "caches_sound env converter (snd (findAddresses env lng lat g))"
    and "settings (snd (findAddresses env lng lat g)) = settings g"
  using query_databases_sound [OF assms(1) _ assms(2), of "databases g"]
    settings_query_databases [of env lng lat "databases g" g]
  by (simp_all add: findAddresses_def settings_def)

lemma caches_sound_clear:
  assumes "sequential_ids (databases g)"
  shows "caches_sound env converter (clear_caches g)"
  using assms
  by (simp add: caches_sound_def clear_caches_def cache_clear_def address_cache_sound_def
      query_cache_sound_def)

subsection \<open>The public methods keep the caches sound\<close>

lemma caches_sound_import:
  assumes "caches_sound env converter g"
  shows "caches_sound env converter (snd (import lc s g))"
proof (cases "fst (import lc s g)")
  case (Inl e)
  then have "snd (import lc s g) = g"
    by (auto simp: import_def split: sum.splits)
  with assms show ?thesis by simp
next
  case (Inr ok)
  then obtain d where d: "snd (import lc s g) = g\<lparr>databases := databases g @ [d]\<rparr>"
      "db_id d = ''db'' @ to_decimal (length (databases g))"
    by (auto simp: import_def split: sum.splits)
  from assms have seq: "sequential_ids (databases g)"
    and a: "address_cache_sound env g" and q: "query_cache_sound env converter g"
    by (simp_all add: caches_sound_def)
  have "sequential_ids (databases g @ [d])"
    using seq d(2) by (rule sequential_ids_append)
  moreover have "address_cache_sound env (g\<lparr>databases := databases g @ [d]\<rparr>)"
    using a unfolding address_cache_sound_def by fastforce
  moreover have "query_cache_sound env converter (g\<lparr>databases := databases g @ [d]\<rparr>)"
    using q unfolding query_cache_sound_def by fastforce
  ultimately show ?thesis
    by (simp add: caches_sound_def d(1))
qed

lemma caches_sound_setRadius:
  "caches_sound env converter g \<Longrightarrow> caches_sound env converter (setRadius r g)"
  by (simp add: caches_sound_def address_cache_sound_def query_cache_sound_def setRadius_def)

lemma caches_sound_setLanguage:
  "caches_sound env converter g \<Longrightarrow> caches_sound env converter (setLanguage l g)"
  by (simp add: caches_sound_def address_cache_sound_def query_cache_sound_def setLanguage_def
      cache_clear_def)

lemma caches_sound_setFilterEnabled:
  "caches_sound env converter g \<Longrightarrow> caches_sound env converter (setFilterEnabled t enabled g)"
  by (simp add: caches_sound_def address_cache_sound_def query_cache_sound_def
      setFilterEnabled_def)

lemma caches_sound_created:
  assumes "databases g = []" and "entries (addressCache g) = []" and "entries (queryCache g) = []"
  shows "caches_sound env converter g"
  using assms
  by (simp add: caches_sound_def address_cache_sound_def query_cache_sound_def sequential_ids_Nil)

lemma reachable_caches_sound:
  assumes "reachable env lc g"
    and "\<And>lng lat r. single_converter converter (findGeometries env lng lat r)"
  shows "caches_sound env converter g"
  using assms(1)
proof (induction rule: reachable.induct)
  case (created g)
  then show ?case by (intro caches_sound_created)
next
  case (imported g s)
  then show ?case by (simp add: caches_sound_import)
next
  case (radius_set g r)
  then show ?case by (simp add: caches_sound_setRadius)
next
  case (language_set g l)
  then show ?case by (simp add: caches_sound_setLanguage)
next
  case (filter_set g t enabled)
  then show ?case by (simp add: caches_sound_setFilterEnabled)
next
  case (queried g lng lat)
  then show ?case
    using assms(2) by (intro findAddresses_sound(2)) simp_all
qed

lemma reachable_filters_distinct:
  assumes "reachable env lc g"
  shows "distinct (enabledFilters g)"
  using assms
proof (induction rule: reachable.induct)
  case (imported g s)
  then show ?case
    by (auto simp: import_def split: sum.splits)
next
  case (queried g lng lat)
  then show ?case
    using findAddresses_sound(3) settings_query_databases [of env lng lat "databases g" g]
    by (simp add: findAddresses_def settings_def)
qed (simp_all add: setRadius_def setLanguage_def setFilterEnabled_distinct)

text \<open>
  C4, as amended. Let the engine be in a state that its public methods produce from
  an engine without databases and with empty caches. The address cache never changes
  the result of a query: \<open>findAddresses\<close> returns the same list when the address cache
  is emptied first. If moreover the index hands one and the same point converter to
  every lookup, then the geometry-info cache does not change the result either: a
  second \<open>findAddresses\<close> with the same arguments, right after the first, returns the
  same list as the first; the caches as they are give the same list as empty caches;
  and the list is the one computed from the stores without any cache.
\<close>

theorem findAddresses_cache_transparent:
  assumes "reachable env lc g"
  shows "fst (findAddresses env lng lat (g\<lparr>addressCache := cache_clear (addressCache g)\<rparr>))
      = fst (findAddresses env lng lat g)
    \<and> ((\<forall>lng lat r. single_converter converter (findGeometries env lng lat r)) \<longrightarrow>
          fst (findAddresses env lng lat (snd (findAddresses env lng lat g)))
            = fst (findAddresses env lng lat g)
          \<and> fst (findAddresses env lng lat (clear_caches g)) = fst (findAddresses env lng lat g)
          \<and> fst (findAddresses env lng lat g) = uncached_findAddresses env lng lat (settings g))"
proof -
  let ?cleared = "g\<lparr>addressCache := cache_clear (addressCache g)\<rparr>"
  have sound: "addresses_sound env g"
    using assms by (rule reachable_addresses_sound)
  then have cleared: "addresses_sound env ?cleared"
    by (rule addresses_sound_subset) (simp_all add: cache_clear_def)
  have "fst (findAddresses env lng lat ?cleared) =
      concat (map (\<lambda>reported.
          uncached_ranked env (fst reported) (language ?cleared) (radius ?cleared) (snd reported))
        (reported_results env lng lat (databases ?cleared) ?cleared))"
    using query_databases_reported [OF cleared, of "databases ?cleared" lng lat]
    by (simp add: findAddresses_def)
  also have "\<dots> = concat (map (\<lambda>reported.
          uncached_ranked env (fst reported) (language g) (radius g) (snd reported))
        (reported_results env lng lat (databases g) g))"
    by (simp add: reported_results_addressCache)
  also have "\<dots> = fst (findAddresses env lng lat g)"
    using query_databases_reported [OF sound, of "databases g" lng lat]
    by (simp add: findAddresses_def)
  finally have addresses: "fst (findAddresses env lng lat ?cleared) = fst (findAddresses env lng lat g)" .
  have "fst (findAddresses env lng lat (snd (findAddresses env lng lat g)))
            = fst (findAddresses env lng lat g)
          \<and> fst (findAddresses env lng lat (clear_caches g)) = fst (findAddresses env lng lat g)
          \<and> fst (findAddresses env lng lat g) = uncached_findAddresses env lng lat (settings g)"
    if "\<forall>lng lat r. single_converter converter (findGeometries env lng lat r)"
  proof -
    from that have single: "single_converter converter (findGeometries env lng lat r)" for lng lat r
      by simp
    have sound: "caches_sound env converter g"
      using assms single by (rule reachable_caches_sound)
    let ?g1 = "snd (findAddresses env lng lat g)"
    have first: "fst (findAddresses env lng lat g) = uncached_findAddresses env lng lat (settings g)"
      using sound single by (rule findAddresses_sound(1))
    have "caches_sound env converter ?g1" and s1: "settings ?g1 = settings g"
      using sound single by (rule findAddresses_sound(2), rule findAddresses_sound(3))
    then have "fst (findAddresses env lng lat ?g1) = uncached_findAddresses env lng lat (settings ?g1)"
      using single by (intro findAddresses_sound(1))
    with s1 first have second: "fst (findAddresses env lng lat ?g1) = fst (findAddresses env lng lat g)"
      by simp
    have "sequential_ids (databases g)"
      using sound by (simp add: caches_sound_def)
    then have "caches_sound env converter (clear_caches g)"
      by (rule caches_sound_clear)
    then have "fst (findAddresses env lng lat (clear_caches g))
        = uncached_findAddresses env lng lat (settings (clear_caches g))"
      using single by (intro findAddresses_sound(1))
    moreover have "settings (clear_caches g) = settings g"
      by (simp add: settings_def clear_caches_def)
    ultimately have "fst (findAddresses env lng lat (clear_caches g)) = fst (findAddresses env lng lat g)"
      using first by simp
    with first second show ?thesis by simp
  qed
  with addresses show ?thesis by blast
qed

theorem findAddresses_cache_transparent_witness:
  "reachable (demo_collaborators global_index) integer_literal (demo_warm global_index)
   \<and> (\<forall>lng lat r. single_converter (\<lambda>pos. pos)
         (findGeometries (demo_collaborators global_index) lng lat r))
   \<and> entries (addressCache (demo_warm global_index)) = [(''db0_7'', (7, ''en''))]
   \<and> entries (queryCache (demo_warm global_index)) =
        [(''db0_SELECT id, features, housenumbers FROM entities WHERE quadindex in (1)'',
          [(7, [(Finite 1, Finite 0)])])]
   \<and> fst (findAddresses (demo_collaborators global_index) (Finite 0) (Finite 0)
         (demo_warm global_index)) = [((7, ''en''), Finite (1 / 2))]
   \<and> fst (findAddresses (demo_collaborators global_index) (Finite 0) (Finite 0)
         (snd (findAddresses (demo_collaborators global_index) (Finite 0) (Finite 0)
           (demo_warm global_index)))) = [((7, ''en''), Finite (1 / 2))]
   \<and> fst (findAddresses (demo_collaborators global_index) (Finite 0) (Finite 0)
         (clear_caches (demo_warm global_index))) = [((7, ''en''), Finite (1 / 2))]
   \<and> fst (findAddresses (demo_collaborators global_index) (Finite 0) (Finite 0)
         ((demo_warm global_index)
            \<lparr>addressCache := cache_clear (addressCache (demo_warm global_index))\<rparr>))
       = [((7, ''en''), Finite (1 / 2))]
   \<and> uncached_findAddresses (demo_collaborators global_index) (Finite 0) (Finite 0)
         (settings (demo_warm global_index)) = [((7, ''en''), Finite (1 / 2))]"
proof -
  let ?env = "demo_collaborators global_index"
  have h1: "reachable ?env integer_literal (demo_warm global_index)"
    by (rule demo_warm_reachable)
  have h2: "\<forall>lng lat r. single_converter (\<lambda>pos. pos) (findGeometries ?env lng lat r)"
    by (simp add: demo_findGeometries global_index_def demo_cells_def)
  have first: "fst (findAddresses ?env (Finite 0) (Finite 0) (demo_warm global_index))
      = [((7, ''en''), Finite (1 / 2))]"
    by (simp add: demo_warm_global global_warm)
  have caches: "entries (addressCache (demo_warm global_index)) = [(''db0_7'', (7, ''en''))]"
    "entries (queryCache (demo_warm global_index)) =
        [(''db0_SELECT id, features, housenumbers FROM entities WHERE quadindex in (1)'',
          [(7, [(Finite 1, Finite 0)])])]"
    by (simp_all add: demo_warm_global demo_state_def)
  from findAddresses_cache_transparent [OF h1, of "Finite 0" "Finite 0" "\<lambda>pos. pos"] h2
  have "fst (findAddresses ?env (Finite 0) (Finite 0)
           ((demo_warm global_index)\<lparr>addressCache := cache_clear (addressCache (demo_warm global_index))\<rparr>))
        = fst (findAddresses ?env (Finite 0) (Finite 0) (demo_warm global_index))"
    and "fst (findAddresses ?env (Finite 0) (Finite 0)
           (snd (findAddresses ?env (Finite 0) (Finite 0) (demo_warm global_index))))
        = fst (findAddresses ?env (Finite 0) (Finite 0) (demo_warm global_index))"
    and "fst (findAddresses ?env (Finite 0) (Finite 0) (clear_caches (demo_warm global_index)))
        = fst (findAddresses ?env (Finite 0) (Finite 0) (demo_warm global_index))"
    and "fst (findAddresses ?env (Finite 0) (Finite 0) (demo_warm global_index))
        = uncached_findAddresses ?env (Finite 0) (Finite 0) (settings (demo_warm global_index))"
    by blast+
  with h1 h2 first caches show ?thesis
    by simp
qed

text \<open>
  C4 as stated fails for an index whose point converter depends on the query point:
  the key of the geometry-info cache does not tell the converters apart. After a
  query at \<open>(1, 0)\<close>, a query at \<open>(0, 0)\<close> is served the geometries that were converted
  for the first query point, and returns the entity 7 with the rank 1. The same query
  right after it finds the entry evicted (the capacity of the cache is 1), converts
  the geometries anew and returns the rank \<open>1 / 2\<close>, as a query on emptied caches and
  the computation without caches do. The configuration is the same throughout.
\<close>

theorem findAddresses_cache_dependent_counterexample:
  "reachable (demo_collaborators local_index) integer_literal (demo_warm local_index)
   \<and> fst (findAddresses (demo_collaborators local_index) (Finite 0) (Finite 0)
         (demo_warm local_index)) = [((7, ''en''), Finite 1)]
   \<and> settings (snd (findAddresses (demo_collaborators local_index) (Finite 0) (Finite 0)
         (demo_warm local_index))) = settings (demo_warm local_index)
   \<and> fst (findAddresses (demo_collaborators local_index) (Finite 0) (Finite 0)
         (snd (findAddresses (demo_collaborators local_index) (Finite 0) (Finite 0)
           (demo_warm local_index)))) = [((7, ''en''), Finite (1 / 2))]
   \<and> fst (findAddresses (demo_collaborators local_index) (Finite 0) (Finite 0)
         (clear_caches (demo_warm local_index))) = [((7, ''en''), Finite (1 / 2))]
   \<and> uncached_findAddresses (demo_collaborators local_index) (Finite 0) (Finite 0)
         (settings (demo_warm local_index)) = [((7, ''en''), Finite (1 / 2))]"
proof -
  have "settings (snd (findAddresses (demo_collaborators local_index) (Finite 0) (Finite 0)
         (demo_warm local_index))) = settings (demo_warm local_index)"
    by (simp add: findAddresses_def settings_query_databases)
  then show ?thesis
    using demo_warm_reachable [of local_index]
    by (simp add: demo_warm_local local_warm local_again local_cold demo_state_fields demo_uncached)
qed

end
